theory Spec2Isabelle
  imports Main "HOL-Library.Sublist"
begin

section \<open>The build orchestrator \<^verbatim>\<open>tools/build.py\<close>\<close>

text \<open>
  The script shells out to \<^verbatim>\<open>cmake\<close> and \<^verbatim>\<open>apt-get\<close> and touches the file system
  through \<^verbatim>\<open>pathlib\<close> and \<^verbatim>\<open>shutil\<close>. Both effects are explicit here: each function of
  the script takes the file system it starts on and returns its result (an exception or
  \<open>None\<close>), the file system it leaves, and the events it caused in order: every line
  printed and every subprocess started.
\<close>

subsection \<open>Paths and the file system\<close>

text \<open>
  \<^verbatim>\<open>ROOT\<close> is \<^verbatim>\<open>Path(__file__).resolve().parent.parent\<close>, an absolute path. A path is the
  list of its components below \<^verbatim>\<open>/\<close>; every segment the script joins with \<^verbatim>\<open>/\<close> is a
  single component. The file system says what each path names: a directory, a regular
  file, or a symbolic link, of which only what it resolves to matters here: a directory,
  a regular file, or nothing (a dangling link). Permissions are outside the model.
\<close>

type_synonym path = "string list"

datatype entry = Dir | File | LinkToDir | LinkToFile | DanglingLink

type_synonym filesystem = "path \<Rightarrow> entry option"

definition pjoin :: "path \<Rightarrow> string \<Rightarrow> path" where
  "pjoin p s = p @ [s]"

fun join_str :: "string \<Rightarrow> string list \<Rightarrow> string" where
  "join_str sep [] = []"
| "join_str sep [x] = x"
| "join_str sep (x # y # ys) = x @ sep @ join_str sep (y # ys)"

definition path_str :: "path \<Rightarrow> string" where
  "path_str p = ''/'' @ join_str ''/'' p"

definition parent :: "path \<Rightarrow> path" where
  "parent p = butlast p"

text \<open>\<^verbatim>\<open>Path.exists()\<close> and \<^verbatim>\<open>Path.is_dir()\<close> follow symbolic links.\<close>

definition exists_path :: "path \<Rightarrow> filesystem \<Rightarrow> bool" where
  "exists_path p fs = (fs p \<noteq> None \<and> fs p \<noteq> Some DanglingLink)"

definition is_dir :: "path \<Rightarrow> filesystem \<Rightarrow> bool" where
  "is_dir p fs = (fs p = Some Dir \<or> fs p = Some LinkToDir)"

subsection \<open>Exceptions and events\<close>

datatype outcome = Exited int | NotStarted

datatype error =
    CalledProcessError int "string list"
  | SpawnError "string list"
  | OSError path
  | FileExistsError path
  | FileNotFoundError path
  | NotADirectoryError path
  | KeyError string

datatype event =
    Printed string
  | Ran "string list" "path option" outcome

type_synonym prog = "filesystem \<Rightarrow> (error + unit) \<times> filesystem \<times> event list"

text \<open>
  What the module-level constants read from the host: where the script lives, the
  processor count, \<^verbatim>\<open>sys.platform\<close>, and what a subprocess started by
  \<^verbatim>\<open>subprocess.check_call(cmd, cwd=cwd)\<close> does: whether it starts at all, its exit
  status, and the file system it leaves.
\<close>

record host =
  root_dir :: path
  cpu_count :: nat
  platform :: string
  subprocess :: "string list \<Rightarrow> path option \<Rightarrow> filesystem \<Rightarrow> outcome \<times> filesystem"

text \<open>Statement after statement: an exception in the first ends the sequence.\<close>

definition seq :: "prog \<Rightarrow> prog \<Rightarrow> prog" where
  "seq f g s =
     (case f s of
        (Inl e, s', evs) \<Rightarrow> (Inl e, s', evs)
      | (Inr u, s', evs) \<Rightarrow> (case g s' of (r, s'', evs') \<Rightarrow> (r, s'', evs @ evs')))"

definition skip :: prog where
  "skip s = (Inr (), s, [])"

definition fs_op :: "(filesystem \<Rightarrow> error + filesystem) \<Rightarrow> prog" where
  "fs_op f s = (case f s of Inl e \<Rightarrow> (Inl e, s, []) | Inr s' \<Rightarrow> (Inr (), s', []))"

definition print :: "string \<Rightarrow> prog" where
  "print msg s = (Inr (), s, [Printed msg])"

text \<open>
  \<^verbatim>\<open>Path.mkdir(exist_ok=...)\<close> (never with \<^verbatim>\<open>parents=True\<close> in the script). Where the path
  names something already, \<^verbatim>\<open>exist_ok\<close> lets a directory, or a link to one, pass.
\<close>

definition mkdir :: "path \<Rightarrow> bool \<Rightarrow> filesystem \<Rightarrow> error + filesystem" where
  "mkdir p exist_ok fs =
     (case fs p of
        Some e \<Rightarrow> (if exist_ok \<and> is_dir p fs then Inr fs else Inl (FileExistsError p))
      | None \<Rightarrow>
          (case fs (parent p) of
             None \<Rightarrow> Inl (FileNotFoundError p)
           | Some Dir \<Rightarrow> Inr (fs(p \<mapsto> Dir))
           | Some File \<Rightarrow> Inl (NotADirectoryError p)
           | Some LinkToDir \<Rightarrow> Inr (fs(p \<mapsto> Dir))
           | Some LinkToFile \<Rightarrow> Inl (NotADirectoryError p)
           | Some DanglingLink \<Rightarrow> Inl (FileNotFoundError p)))"

text \<open>
  \<^verbatim>\<open>shutil.rmtree(p)\<close>: the directory and everything below it. It refuses a symbolic
  link (``Cannot call rmtree on a symbolic link'').
\<close>

definition rmtree :: "path \<Rightarrow> filesystem \<Rightarrow> error + filesystem" where
  "rmtree p fs =
     (case fs p of
        None \<Rightarrow> Inl (FileNotFoundError p)
      | Some Dir \<Rightarrow> Inr (\<lambda>q. if prefix p q then None else fs q)
      | Some File \<Rightarrow> Inl (NotADirectoryError p)
      | Some LinkToDir \<Rightarrow> Inl (OSError p)
      | Some LinkToFile \<Rightarrow> Inl (OSError p)
      | Some DanglingLink \<Rightarrow> Inl (OSError p))"

subsection \<open>Module-level constants\<close>

text \<open>\<^verbatim>\<open>PROJECT_DIR\<close> is assigned and never read; it has no counterpart here.\<close>

text \<open>The decimal digit of a number below ten.\<close>

definition digit_char :: "nat \<Rightarrow> char" where
  "digit_char n = ''0123456789'' ! (n mod 10)"

text \<open>\<^verbatim>\<open>str(n)\<close> of a non-negative integer.\<close>

function str_nat :: "nat \<Rightarrow> string" where
  "str_nat n = (if n < 10 then [digit_char n] else str_nat (n div 10) @ [digit_char (n mod 10)])"
  by pat_completeness auto
termination
  by (relation "measure (\<lambda>n. n)") auto

declare str_nat.simps [simp del]

definition CORES :: "host \<Rightarrow> nat" where
  "CORES h = cpu_count h div 2"

definition SUB :: "host \<Rightarrow> path" where
  "SUB h = pjoin (root_dir h) ''submodules''"

definition DEPS :: "host \<Rightarrow> path" where
  "DEPS h = pjoin (root_dir h) ''dependencies''"

text \<open>The dictionaries keep their insertion order, which \<^verbatim>\<open>ensure_dirs\<close> iterates.\<close>

definition SUBDIRS :: "host \<Rightarrow> (string \<times> path) list" where
  "SUBDIRS h =
     [(''osg'', pjoin (SUB h) ''OpenSceneGraph''),
      (''simbody'', pjoin (SUB h) ''simbody''),
      (''opensim'', pjoin (SUB h) ''opensim3-scone''),
      (''scone'', pjoin (root_dir h) ''scone'')]"

definition DEPSDIRS :: "host \<Rightarrow> (string \<times> path) list" where
  "DEPSDIRS h = map (\<lambda>(name, p). (name, pjoin (DEPS h) name)) (SUBDIRS h)"

definition APT_PACKAGES :: "string list" where
  "APT_PACKAGES =
     [''git'', ''rsync'', ''cmake'', ''make'', ''gcc'', ''g++'', ''python3.12-dev'',
      ''ruby'', ''ruby-dev'', ''rubygems'',
      ''libpng-dev'', ''zlib1g-dev'', ''qtbase5-dev'',
      ''liblapack-dev'',
      ''freeglut3-dev'', ''libxi-dev'', ''libxmu-dev'', ''liblapack-dev'']"

subsection \<open>The functions of the script\<close>

definition run :: "host \<Rightarrow> string list \<Rightarrow> path option \<Rightarrow> prog" where
  "run h cmd cwd s =
     (let (out, s') = subprocess h cmd cwd s;
          evs = [Printed (CHR 0x0A # ''>> Running: '' @ join_str '' '' cmd), Ran cmd cwd out]
      in case out of
           NotStarted \<Rightarrow> (Inl (SpawnError cmd), s', evs)
         | Exited rc \<Rightarrow>
             (if rc \<noteq> 0 then (Inl (CalledProcessError rc cmd), s', evs) else (Inr (), s', evs)))"

fun mkdir_each :: "path list \<Rightarrow> prog" where
  "mkdir_each [] s = skip s"
| "mkdir_each (d # ds) s = seq (fs_op (mkdir d True)) (mkdir_each ds) s"

definition ensure_dirs :: "host \<Rightarrow> prog" where
  "ensure_dirs h =
     seq (fs_op (mkdir (SUB h) True))
    (seq (fs_op (mkdir (DEPS h) True))
         (mkdir_each (map snd (DEPSDIRS h))))"

definition install_system_deps :: "host \<Rightarrow> prog" where
  "install_system_deps h =
     seq (run h [''sudo'', ''apt-get'', ''update''] None)
    (seq (run h ([''sudo'', ''apt-get'', ''install'', ''-y''] @ APT_PACKAGES) None)
         (run h [''sudo'', ''gem'', ''install'', ''--no-document'', ''fpm''] None))"

text \<open>
  \<^verbatim>\<open>already_built\<close> returns a truth value or raises \<^verbatim>\<open>KeyError\<close>; it changes nothing.
\<close>

definition already_built :: "host \<Rightarrow> string \<Rightarrow> filesystem \<Rightarrow> error + bool" where
  "already_built h dep_name s =
     (case map_of (DEPSDIRS h) dep_name of
        None \<Rightarrow> Inl (KeyError dep_name)
      | Some d \<Rightarrow> Inr (exists_path (pjoin d ''install'') s))"

text \<open>The list \<^verbatim>\<open>cmake_cmd\<close> as \<^verbatim>\<open>cmake_configure_and_build\<close> assembles it.\<close>

definition cmake_cmd :: "path \<Rightarrow> path \<Rightarrow> string list option \<Rightarrow> string list" where
  "cmake_cmd src install extra_flags =
     (let cmd = [''cmake'', path_str src, ''-DCMAKE_BUILD_TYPE=Release'',
                 ''-DCMAKE_INSTALL_PREFIX='' @ path_str install,
                 ''-DCMAKE_POLICY_VERSION_MINIMUM=3.5'']
      in case extra_flags of
           None \<Rightarrow> cmd
         | Some fl \<Rightarrow> (if fl \<noteq> [] then cmd @ fl else cmd))"

definition cmake_configure_and_build :: "host \<Rightarrow> string \<Rightarrow> string list option \<Rightarrow> prog" where
  "cmake_configure_and_build h name extra_flags s =
     (case map_of (SUBDIRS h) name of
        None \<Rightarrow> (Inl (KeyError name), s, [])
      | Some src \<Rightarrow>
          (case map_of (DEPSDIRS h) name of
             None \<Rightarrow> (Inl (KeyError name), s, [])
           | Some d \<Rightarrow>
               (let build = pjoin d ''build''; install = pjoin d ''install'' in
                seq (\<lambda>s. if exists_path build s then fs_op (rmtree build) s else skip s)
               (seq (fs_op (mkdir build False))
               (seq (run h (cmake_cmd src install extra_flags) (Some build))
               (seq (run h [''cmake'', ''--build'', ''.'', ''--parallel'', str_nat (CORES h)] (Some build))
                    (run h [''cmake'', ''--install'', ''.''] (Some build))))) s)))"

text \<open>
  A builder that finds its dependency installed, and is not forced, prints a notice and
  returns; otherwise it configures and builds.
\<close>

definition build_osg :: "host \<Rightarrow> bool \<Rightarrow> prog" where
  "build_osg h force s =
     (case already_built h ''osg'' s of
        Inl e \<Rightarrow> (Inl e, s, [])
      | Inr built \<Rightarrow>
          (if built \<and> \<not> force then print ''OSG already built. Use --rebuild to force.'' s
           else cmake_configure_and_build h ''osg''
                  (Some [''-DOSG_USE_QT=ON'', ''-DDESIRED_QT_VERSION=5'']) s))"

definition build_simbody :: "host \<Rightarrow> bool \<Rightarrow> prog" where
  "build_simbody h force s =
     (case already_built h ''simbody'' s of
        Inl e \<Rightarrow> (Inl e, s, [])
      | Inr built \<Rightarrow>
          (if built \<and> \<not> force then print ''Simbody already built. Use --rebuild to force.'' s
           else cmake_configure_and_build h ''simbody'' None s))"

definition build_opensim :: "host \<Rightarrow> bool \<Rightarrow> prog" where
  "build_opensim h force s =
     (case already_built h ''opensim'' s of
        Inl e \<Rightarrow> (Inl e, s, [])
      | Inr built \<Rightarrow>
          (if built \<and> \<not> force then print ''OpenSim already built. Use --rebuild to force.'' s
           else
             (case map_of (DEPSDIRS h) ''simbody'' of
                None \<Rightarrow> (Inl (KeyError ''simbody''), s, [])
              | Some d \<Rightarrow>
                  (let simbody_home = pjoin d ''install'';
                       platform_flags =
                         (if platform h = ''darwin'' then
                            [''-DCMAKE_OSX_DEPLOYMENT_TARGET=10.10'',
                             ''-DCMAKE_CXX_FLAGS=-stdlib=libc++'',
                             ''-DCMAKE_MACOSX_RPATH=TRUE'',
                             ''-DCMAKE_INSTALL_RPATH=@executable_path/../lib'',
                             ''-DBUILD_TESTING=OFF'',
                             ''-DBUILD_API_EXAMPLES=OFF'',
                             ''-DBUILD_API_ONLY=OFF'',
                             ''-DCMAKE_POLICY_VERSION_MINIMUM=3.5'']
                          else
                            [''-DCMAKE_INSTALL_RPATH=$ORIGIN'',
                             ''-DBUILD_TESTING=OFF'',
                             ''-DBUILD_API_EXAMPLES=OFF'',
                             ''-DBUILD_API_ONLY=OFF'',
                             ''-DCMAKE_POLICY_VERSION_MINIMUM=3.5'']);
                       extra_flags =
                         [''-DSIMBODY_HOME='' @ path_str simbody_home,
                          ''-DCMAKE_VERBOSE_MAKEFILE=FALSE''] @ platform_flags
                   in cmake_configure_and_build h ''opensim'' (Some extra_flags) s))))"

text \<open>
  \<^verbatim>\<open>build_scone\<close> takes the flag and does not read it: ``SCONE is not considered fixed,
  so always rebuild unless cached mode is implemented''.
\<close>

definition build_scone :: "host \<Rightarrow> bool \<Rightarrow> prog" where
  "build_scone h force = cmake_configure_and_build h ''scone'' None"

definition build_all :: "host \<Rightarrow> bool \<Rightarrow> prog" where
  "build_all h force =
     seq (build_osg h force)
    (seq (build_simbody h force)
    (seq (build_opensim h force)
         (build_scone h force)))"

text \<open>
  \<^verbatim>\<open>argparse\<close> accepts exactly six targets and the switch \<^verbatim>\<open>--rebuild\<close>; with anything
  else \<^verbatim>\<open>parse_args\<close> leaves the process before \<^verbatim>\<open>main\<close> does anything.
\<close>

datatype target = Deps | Osg | Simbody | Opensim | Scone | All

record args =
  target :: target
  rebuild :: bool

definition dispatch :: "host \<Rightarrow> args \<Rightarrow> prog" where
  "dispatch h a =
     (case target a of
        Deps \<Rightarrow> install_system_deps h
      | Osg \<Rightarrow> build_osg h (rebuild a)
      | Simbody \<Rightarrow> build_simbody h (rebuild a)
      | Opensim \<Rightarrow> build_opensim h (rebuild a)
      | Scone \<Rightarrow> build_scone h (rebuild a)
      | All \<Rightarrow> build_all h (rebuild a))"

definition main :: "host \<Rightarrow> args \<Rightarrow> prog" where
  "main h a = seq (ensure_dirs h) (dispatch h a)"

text \<open>
  The script calls \<^verbatim>\<open>main()\<close> with no handler around it: the interpreter ends with
  status 0 when \<^verbatim>\<open>main\<close> returns and with status 1 when an exception leaves it.
\<close>

definition exit_status :: "error + unit \<Rightarrow> int" where
  "exit_status r = (case r of Inr u \<Rightarrow> 0 | Inl e \<Rightarrow> 1)"

subsection \<open>Reading the events\<close>

text \<open>The subprocesses among the events: command, working directory and outcome.\<close>

fun runs :: "event list \<Rightarrow> (string list \<times> path option \<times> outcome) list" where
  "runs [] = []"
| "runs (Printed msg # es) = runs es"
| "runs (Ran cmd cwd out # es) = (cmd, cwd, out) # runs es"

text \<open>The working directories and the outcomes of the subprocesses, in order.\<close>

definition cwds :: "event list \<Rightarrow> path option list" where
  "cwds evs = map (\<lambda>x. fst (snd x)) (runs evs)"

definition outcomes :: "event list \<Rightarrow> outcome list" where
  "outcomes evs = map (\<lambda>x. snd (snd x)) (runs evs)"

text \<open>What \<^verbatim>\<open>run\<close> returns for an outcome of the subprocess.\<close>

definition raised :: "string list \<Rightarrow> outcome \<Rightarrow> error + unit" where
  "raised cmd out =
     (case out of
        NotStarted \<Rightarrow> Inl (SpawnError cmd)
      | Exited rc \<Rightarrow> (if rc \<noteq> 0 then Inl (CalledProcessError rc cmd) else Inr ()))"

text \<open>
  A program is fail-fast when a subprocess that does not exit with status 0 decides the
  result and is the last one started.
\<close>

definition fail_fast :: "prog \<Rightarrow> bool" where
  "fail_fast f =
     (\<forall>s r s' evs. f s = (r, s', evs) \<longrightarrow>
        (\<forall>x \<in> set (runs evs). snd (snd x) \<noteq> Exited 0 \<longrightarrow> r = raised (fst x) (snd (snd x))) \<and>
        (\<forall>x \<in> set (butlast (runs evs)). snd (snd x) = Exited 0))"

text \<open>The directories of a dependency, written out.\<close>

definition dep_names :: "string list" where
  "dep_names = [''osg'', ''simbody'', ''opensim'', ''scone'']"

definition dep_dir :: "host \<Rightarrow> string \<Rightarrow> path" where
  "dep_dir h n = root_dir h @ [''dependencies'', n]"

definition build_dir :: "host \<Rightarrow> string \<Rightarrow> path" where
  "build_dir h n = dep_dir h n @ [''build'']"

definition install_dir :: "host \<Rightarrow> string \<Rightarrow> path" where
  "install_dir h n = dep_dir h n @ [''install'']"

text \<open>The directories that \<^verbatim>\<open>ensure_dirs\<close> makes, in the order it makes them.\<close>

definition made_dirs :: "host \<Rightarrow> path list" where
  "made_dirs h =
     [root_dir h @ [''submodules''],
      root_dir h @ [''dependencies''],
      root_dir h @ [''dependencies'', ''osg''],
      root_dir h @ [''dependencies'', ''simbody''],
      root_dir h @ [''dependencies'', ''opensim''],
      root_dir h @ [''dependencies'', ''scone'']]"

text \<open>The second and third command of a build step.\<close>

definition build_cmd :: "host \<Rightarrow> string list" where
  "build_cmd h = [''cmake'', ''--build'', ''.'', ''--parallel'', str_nat (cpu_count h div 2)]"

definition install_cmd :: "string list" where
  "install_cmd = [''cmake'', ''--install'', ''.'']"

text \<open>The configure command a build step is to issue, and the flags of opensim.\<close>

definition configure_cmd :: "host \<Rightarrow> path \<Rightarrow> string \<Rightarrow> string list \<Rightarrow> string list" where
  "configure_cmd h src n extra =
     [''cmake'', path_str src, ''-DCMAKE_BUILD_TYPE=Release'',
      ''-DCMAKE_INSTALL_PREFIX='' @ path_str (install_dir h n),
      ''-DCMAKE_POLICY_VERSION_MINIMUM=3.5''] @ extra"

definition opensim_flags :: "host \<Rightarrow> string list" where
  "opensim_flags h =
     [''-DSIMBODY_HOME='' @ path_str (install_dir h ''simbody''), ''-DCMAKE_VERBOSE_MAKEFILE=FALSE''] @
     (if platform h = ''darwin'' then
        [''-DCMAKE_OSX_DEPLOYMENT_TARGET=10.10'', ''-DCMAKE_CXX_FLAGS=-stdlib=libc++'',
         ''-DCMAKE_MACOSX_RPATH=TRUE'', ''-DCMAKE_INSTALL_RPATH=@executable_path/../lib'',
         ''-DBUILD_TESTING=OFF'', ''-DBUILD_API_EXAMPLES=OFF'', ''-DBUILD_API_ONLY=OFF'',
         ''-DCMAKE_POLICY_VERSION_MINIMUM=3.5'']
      else
        [''-DCMAKE_INSTALL_RPATH=$ORIGIN'', ''-DBUILD_TESTING=OFF'', ''-DBUILD_API_EXAMPLES=OFF'',
         ''-DBUILD_API_ONLY=OFF'', ''-DCMAKE_POLICY_VERSION_MINIMUM=3.5''])"

text \<open>
  The four build steps as \<^verbatim>\<open>main\<close> dispatches them: name, builder, source directory and
  the extra configure flags expected.
\<close>

definition build_steps :: "host \<Rightarrow> (string \<times> (bool \<Rightarrow> prog) \<times> path \<times> string list) list" where
  "build_steps h =
     [(''osg'', build_osg h, root_dir h @ [''submodules'', ''OpenSceneGraph''],
         [''-DOSG_USE_QT=ON'', ''-DDESIRED_QT_VERSION=5'']),
      (''simbody'', build_simbody h, root_dir h @ [''submodules'', ''simbody''], []),
      (''opensim'', build_opensim h, root_dir h @ [''submodules'', ''opensim3-scone''], opensim_flags h),
      (''scone'', build_scone h, root_dir h @ [''scone''], [])]"

text \<open>
  The subprocesses of a build step whose commands have the outcomes \<open>outs\<close>: configure,
  build and install in this order, in the build directory, as far as there are outcomes.
\<close>

definition attempts :: "host \<Rightarrow> string \<Rightarrow> path \<Rightarrow> string list \<Rightarrow> outcome list \<Rightarrow>
    (string list \<times> path option \<times> outcome) list" where
  "attempts h n src extra outs =
     zip [configure_cmd h src n extra, build_cmd h, install_cmd] (map (Pair (Some (build_dir h n))) outs)"

text \<open>The shape that the builders of osg, simbody and opensim share.\<close>

definition skip_or :: "host \<Rightarrow> string \<Rightarrow> bool \<Rightarrow> string \<Rightarrow> prog \<Rightarrow> prog" where
  "skip_or h dep_name force notice body s =
     (case already_built h dep_name s of
        Inl e \<Rightarrow> (Inl e, s, [])
      | Inr b \<Rightarrow> (if b \<and> \<not> force then print notice s else body s))"

text \<open>
  The build directory \<open>b\<close> can be reset when nothing or a directory is there and its
  parent is a directory (or a link to one).
\<close>

definition resettable :: "path \<Rightarrow> filesystem \<Rightarrow> bool" where
  "resettable b s = ((s b = None \<or> s b = Some Dir) \<and> is_dir (parent b) s)"

text \<open>
  The file system once the build directory \<open>b\<close> has been reset: \<open>b\<close> is a directory, and
  if it was there before, nothing is left below it.
\<close>

definition reset_fs :: "path \<Rightarrow> filesystem \<Rightarrow> filesystem" where
  "reset_fs b s = (\<lambda>q. if q = b then Some Dir else if prefix b q \<and> s b \<noteq> None then None else s q)"

subsection \<open>Hosts and file systems to run the script on\<close>

definition linux_host :: host where
  "linux_host =
     \<lparr>root_dir = [''repo''], cpu_count = 8, platform = ''linux'',
      subprocess = (\<lambda>cmd cwd s. (Exited 0, s))\<rparr>"

definition mac_host :: host where
  "mac_host = linux_host\<lparr>platform := ''darwin''\<rparr>"

definition single_core_host :: host where
  "single_core_host = linux_host\<lparr>cpu_count := 1\<rparr>"

text \<open>A host on which every command exits with status 2.\<close>

definition broken_host :: host where
  "broken_host = linux_host\<lparr>subprocess := (\<lambda>cmd cwd s. (Exited 2, s))\<rparr>"

text \<open>A host on which only \<^verbatim>\<open>cmake --install .\<close> exits with status 2.\<close>

definition install_broken_host :: host where
  "install_broken_host =
     linux_host\<lparr>subprocess :=
       (\<lambda>cmd cwd s. (if cmd = [''cmake'', ''--install'', ''.''] then Exited 2 else Exited 0, s))\<rparr>"

text \<open>A host on which the commands run in the build directory of simbody exit with status 2.\<close>

definition simbody_broken_host :: host where
  "simbody_broken_host =
     linux_host\<lparr>subprocess :=
       (\<lambda>cmd cwd s. (if cwd = Some [''repo'', ''dependencies'', ''simbody'', ''build'']
                       then Exited 2 else Exited 0, s))\<rparr>"

text \<open>A fresh checkout: the repository directory and nothing else.\<close>

definition checkout :: filesystem where
  "checkout = [[''repo''] \<mapsto> Dir]"

text \<open>The directories that \<^verbatim>\<open>ensure_dirs\<close> makes, all there, nothing built.\<close>

definition prepared :: filesystem where
  "prepared =
     map_of
       [([''repo''], Dir),
        ([''repo'', ''submodules''], Dir),
        ([''repo'', ''dependencies''], Dir),
        ([''repo'', ''dependencies'', ''osg''], Dir),
        ([''repo'', ''dependencies'', ''simbody''], Dir),
        ([''repo'', ''dependencies'', ''opensim''], Dir),
        ([''repo'', ''dependencies'', ''scone''], Dir)]"

text \<open>The same with every dependency installed.\<close>

definition installed :: filesystem where
  "installed =
     prepared
       ([''repo'', ''dependencies'', ''osg'', ''install''] \<mapsto> Dir,
        [''repo'', ''dependencies'', ''simbody'', ''install''] \<mapsto> Dir,
        [''repo'', ''dependencies'', ''opensim'', ''install''] \<mapsto> Dir,
        [''repo'', ''dependencies'', ''scone'', ''install''] \<mapsto> Dir)"

text \<open>A checkout in which only osg was ever built.\<close>

definition osg_only :: filesystem where
  "osg_only =
     map_of
       [([''repo''], Dir),
        ([''repo'', ''dependencies''], Dir),
        ([''repo'', ''dependencies'', ''osg''], Dir),
        ([''repo'', ''dependencies'', ''osg'', ''install''], Dir)]"

text \<open>A prepared checkout in which \<^verbatim>\<open>install\<close> is a regular file for three dependencies.\<close>

definition install_is_file :: filesystem where
  "install_is_file =
     prepared
       ([''repo'', ''dependencies'', ''osg'', ''install''] \<mapsto> File,
        [''repo'', ''dependencies'', ''simbody'', ''install''] \<mapsto> File,
        [''repo'', ''dependencies'', ''opensim'', ''install''] \<mapsto> File)"

text \<open>A prepared checkout in which \<^verbatim>\<open>install\<close> of simbody is a dangling symbolic link.\<close>

definition install_is_dangling :: filesystem where
  "install_is_dangling =
     prepared([''repo'', ''dependencies'', ''simbody'', ''install''] \<mapsto> DanglingLink)"

section \<open>Properties\<close>

subsection \<open>Lemmas on sequencing, lookups and the build step\<close>

lemma runs_append: "runs (xs @ ys) = runs xs @ runs ys"
  by (induction xs rule: runs.induct) simp_all

lemma seq_cases:
  assumes "seq f g s = (r, s'', E)"
  shows "(\<exists>e. f s = (Inl e, s'', E) \<and> r = Inl e) \<or>
         (\<exists>s' e1 e2. f s = (Inr (), s', e1) \<and> g s' = (r, s'', e2) \<and> E = e1 @ e2)"
  using assms by (auto simp: seq_def split: prod.splits sum.splits)

lemma DEPSDIRS_lookup:
  "n \<in> set dep_names \<Longrightarrow> map_of (DEPSDIRS h) n = Some (dep_dir h n)"
  by (auto simp: DEPSDIRS_def SUBDIRS_def dep_names_def dep_dir_def DEPS_def pjoin_def)

lemma already_built_eq:
  "n \<in> set dep_names \<Longrightarrow> already_built h n s = Inr (exists_path (install_dir h n) s)"
  by (simp add: already_built_def DEPSDIRS_lookup install_dir_def pjoin_def)


lemma fail_fastD:
  assumes "fail_fast f" "f s = (r, s', evs)"
  shows "\<And>x. x \<in> set (runs evs) \<Longrightarrow> snd (snd x) \<noteq> Exited 0 \<Longrightarrow> r = raised (fst x) (snd (snd x))"
    and "\<And>x. x \<in> set (butlast (runs evs)) \<Longrightarrow> snd (snd x) = Exited 0"
  using assms(1)[unfolded fail_fast_def, rule_format, OF assms(2)] by simp_all

lemma fail_fastI:
  assumes "\<And>s r s' evs x. f s = (r, s', evs) \<Longrightarrow> x \<in> set (runs evs) \<Longrightarrow>
             snd (snd x) \<noteq> Exited 0 \<Longrightarrow> r = raised (fst x) (snd (snd x))"
    and "\<And>s r s' evs x. f s = (r, s', evs) \<Longrightarrow> x \<in> set (butlast (runs evs)) \<Longrightarrow>
             snd (snd x) = Exited 0"
  shows "fail_fast f"
  unfolding fail_fast_def using assms by simp

lemma raised_Inr: "raised cmd out = Inr u \<longleftrightarrow> out = Exited 0"
  by (auto simp: raised_def split: outcome.splits)

lemma fail_fast_Inr:
  assumes "fail_fast f" "f s = (Inr u, s', evs)" "x \<in> set (runs evs)"
  shows "snd (snd x) = Exited 0"
proof (rule ccontr)
  assume bad: "snd (snd x) \<noteq> Exited 0"
  from fail_fastD(1)[OF assms(1,2,3) bad] have "raised (fst x) (snd (snd x)) = Inr u" by simp
  with bad show False by (simp add: raised_Inr)
qed

lemma run_result:
  "run h cmd cwd s = (raised cmd (fst (subprocess h cmd cwd s)), snd (subprocess h cmd cwd s),
     [Printed (CHR 0x0A # ''>> Running: '' @ join_str '' '' cmd), Ran cmd cwd (fst (subprocess h cmd cwd s))])"
  by (simp add: run_def raised_def split: prod.splits outcome.splits)

lemma fail_fast_run: "fail_fast (run h cmd cwd)"
  by (simp add: fail_fast_def run_result)

lemma fail_fast_silent:
  assumes "\<And>s. runs (snd (snd (f s))) = []"
  shows "fail_fast f"
proof (rule fail_fastI)
  fix s r s' evs x assume "f s = (r, s', evs)"
  with assms[of s] have e: "runs evs = []" by simp
  { assume "x \<in> set (runs evs)" with e show "r = raised (fst x) (snd (snd x))" by simp }
  { assume "x \<in> set (butlast (runs evs))" with e show "snd (snd x) = Exited 0" by simp }
qed

lemma fail_fast_fs_op: "fail_fast (fs_op f)"
  by (rule fail_fast_silent) (simp add: fs_op_def split: sum.splits)

lemma fail_fast_skip: "fail_fast skip"
  by (rule fail_fast_silent) (simp add: skip_def)

lemma fail_fast_print: "fail_fast (print msg)"
  by (rule fail_fast_silent) (simp add: print_def)

lemma fail_fast_seq:
  assumes f: "fail_fast f" and g: "fail_fast g"
  shows "fail_fast (seq f g)"
proof (rule fail_fastI)
  fix s r s'' E x assume run: "seq f g s = (r, s'', E)"
  from seq_cases[OF run] consider
    (stop) e where "f s = (Inl e, s'', E)" "r = Inl e"
  | (go) s' e1 e2 where "f s = (Inr (), s', e1)" "g s' = (r, s'', e2)" "E = e1 @ e2"
    by blast
  note cs = this
  { assume x: "x \<in> set (runs E)" and bad: "snd (snd x) \<noteq> Exited 0"
    from cs show "r = raised (fst x) (snd (snd x))"
    proof cases
      case stop
      from fail_fastD(1)[OF f stop(1) x bad] stop(2) show ?thesis by simp
    next
      case go
      from x go(3) have "x \<in> set (runs e1) \<or> x \<in> set (runs e2)" by (simp add: runs_append)
      then show ?thesis
      proof
        assume "x \<in> set (runs e1)"
        from fail_fast_Inr[OF f go(1) this] bad show ?thesis by simp
      next
        assume "x \<in> set (runs e2)"
        from fail_fastD(1)[OF g go(2) this bad] show ?thesis .
      qed
    qed }
  { assume x: "x \<in> set (butlast (runs E))"
    from cs show "snd (snd x) = Exited 0"
    proof cases
      case stop
      from fail_fastD(2)[OF f stop(1) x] show ?thesis .
    next
      case go
      show ?thesis
      proof (cases "runs e2 = []")
        case True
        with x go(3) have "x \<in> set (runs e1)" by (simp add: runs_append in_set_butlastD)
        from fail_fast_Inr[OF f go(1) this] show ?thesis .
      next
        case False
        with x go(3) have "x \<in> set (runs e1) \<or> x \<in> set (butlast (runs e2))"
          by (simp add: runs_append butlast_append)
        then show ?thesis
        proof
          assume "x \<in> set (runs e1)"
          from fail_fast_Inr[OF f go(1) this] show ?thesis .
        next
          assume "x \<in> set (butlast (runs e2))"
          from fail_fastD(2)[OF g go(2) this] show ?thesis .
        qed
      qed
    qed }
qed


lemma fail_fast_if:
  assumes "fail_fast f" "fail_fast g"
  shows "fail_fast (\<lambda>s. if c s then f s else g s)"
proof (rule fail_fastI)
  fix s r s' evs x assume run: "(if c s then f s else g s) = (r, s', evs)"
  { assume x: "x \<in> set (runs evs)" "snd (snd x) \<noteq> Exited 0"
    show "r = raised (fst x) (snd (snd x))"
      using run x fail_fastD(1)[OF assms(1)] fail_fastD(1)[OF assms(2)]
      by (cases "c s") simp_all }
  { assume x: "x \<in> set (butlast (runs evs))"
    show "snd (snd x) = Exited 0"
      using run x fail_fastD(2)[OF assms(1)] fail_fastD(2)[OF assms(2)]
      by (cases "c s") simp_all }
qed

lemma fail_fast_raise: "fail_fast (\<lambda>s. (Inl e, s, []))"
  by (rule fail_fast_silent) simp

lemma ccb_known:
  assumes "map_of (SUBDIRS h) n = Some src" "map_of (DEPSDIRS h) n = Some d"
  shows "cmake_configure_and_build h n extra =
     seq (\<lambda>s. if exists_path (d @ [''build'']) s then fs_op (rmtree (d @ [''build''])) s else skip s)
    (seq (fs_op (mkdir (d @ [''build'']) False))
    (seq (run h (cmake_cmd src (d @ [''install'']) extra) (Some (d @ [''build''])))
    (seq (run h (build_cmd h) (Some (d @ [''build''])))
         (run h install_cmd (Some (d @ [''build'']))))))"
  by (rule ext) (simp add: cmake_configure_and_build_def assms pjoin_def build_cmd_def install_cmd_def CORES_def Let_def)

lemma ccb_unknown:
  assumes "map_of (SUBDIRS h) n = None \<or> map_of (DEPSDIRS h) n = None"
  shows "cmake_configure_and_build h n extra = (\<lambda>s. (Inl (KeyError n), s, []))"
  using assms by (auto simp: cmake_configure_and_build_def fun_eq_iff split: option.splits)

lemma fail_fast_ccb: "fail_fast (cmake_configure_and_build h n extra)"
proof (cases "map_of (SUBDIRS h) n = None \<or> map_of (DEPSDIRS h) n = None")
  case True
  then show ?thesis by (simp only: ccb_unknown fail_fast_raise)
next
  case False
  then obtain src d where "map_of (SUBDIRS h) n = Some src" "map_of (DEPSDIRS h) n = Some d" by auto
  then show ?thesis
    by (simp only: ccb_known)
       (intro fail_fast_seq fail_fast_if fail_fast_fs_op fail_fast_skip fail_fast_run)
qed

lemma reset_ok:
  assumes "resettable (d @ [x]) s"
  shows "seq (\<lambda>s. if exists_path (d @ [x]) s then fs_op (rmtree (d @ [x])) s else skip s)
           (seq (fs_op (mkdir (d @ [x]) False)) g) s = g (reset_fs (d @ [x]) s)"
proof -
  from assms have par: "s d = Some Dir \<or> s d = Some LinkToDir"
    and b: "s (d @ [x]) = None \<or> s (d @ [x]) = Some Dir"
    by (simp_all add: resettable_def is_dir_def parent_def)
  have np: "\<not> prefix (d @ [x]) d" by (auto simp: prefix_def)
  from b show ?thesis
  proof
    assume None: "s (d @ [x]) = None"
    then have "reset_fs (d @ [x]) s = s(d @ [x] \<mapsto> Dir)"
      by (auto simp: reset_fs_def fun_eq_iff)
    with None par show ?thesis
      by (auto simp: seq_def exists_path_def skip_def fs_op_def mkdir_def parent_def split: prod.splits)
  next
    assume e: "s (d @ [x]) = Some Dir"
    have "(\<lambda>q. if prefix (d @ [x]) q then None else s q)(d @ [x] \<mapsto> Dir) = reset_fs (d @ [x]) s"
      using e by (auto simp: reset_fs_def fun_eq_iff)
    with e par np show ?thesis
      by (auto simp: seq_def exists_path_def fs_op_def rmtree_def mkdir_def parent_def split: prod.splits)
  qed
qed

lemma reset_fails:
  assumes "\<not> resettable (d @ [x]) s"
  shows "\<exists>e s1. seq (\<lambda>s. if exists_path (d @ [x]) s then fs_op (rmtree (d @ [x])) s else skip s)
           (seq (fs_op (mkdir (d @ [x]) False)) g) s = (Inl e, s1, [])"
proof -
  have np: "\<not> prefix (d @ [x]) d" by (auto simp: prefix_def)
  show ?thesis
  proof (cases "s (d @ [x])")
    case None
    with assms have "\<not> is_dir d s" by (simp add: resettable_def parent_def)
    with None show ?thesis
      by (cases "s d")
         (auto simp: seq_def exists_path_def skip_def fs_op_def mkdir_def parent_def is_dir_def
            split: entry.splits)
  next
    case (Some e)
    show ?thesis
    proof (cases "e = Dir")
      case True
      with Some assms have "\<not> is_dir d s" by (simp add: resettable_def parent_def)
      with Some True np show ?thesis
        by (cases "s d")
           (auto simp: seq_def exists_path_def fs_op_def rmtree_def mkdir_def parent_def is_dir_def
              split: entry.splits)
    next
      case False
      with Some show ?thesis
        by (cases e)
           (auto simp: seq_def exists_path_def skip_def fs_op_def rmtree_def mkdir_def is_dir_def)
    qed
  qed
qed

lemma skip_or_skip:
  assumes "n \<in> set dep_names" "exists_path (install_dir h n) s"
  shows "skip_or h n False notice body s = (Inr (), s, [Printed notice])"
  using assms by (simp add: skip_or_def already_built_eq print_def)

lemma skip_or_go:
  assumes "n \<in> set dep_names" "\<not> exists_path (install_dir h n) s \<or> force"
  shows "skip_or h n force notice body s = body s"
  using assms by (auto simp: skip_or_def already_built_eq)

lemma ccb_reset:
  assumes "map_of (SUBDIRS h) n = Some src" "n \<in> set dep_names"
    and "resettable (build_dir h n) s"
  shows "cmake_configure_and_build h n extra s =
     seq (run h (cmake_cmd src (install_dir h n) extra) (Some (build_dir h n)))
    (seq (run h (build_cmd h) (Some (build_dir h n)))
         (run h install_cmd (Some (build_dir h n)))) (reset_fs (build_dir h n) s)"
  unfolding ccb_known[OF assms(1) DEPSDIRS_lookup[OF assms(2)]] build_dir_def install_dir_def
  by (rule reset_ok) (use assms(3) in \<open>simp add: build_dir_def\<close>)

lemma ccb_no_reset:
  assumes "map_of (SUBDIRS h) n = Some src" "n \<in> set dep_names"
    and "\<not> resettable (build_dir h n) s"
  shows "\<exists>e s1. cmake_configure_and_build h n extra s = (Inl e, s1, [])"
  unfolding ccb_known[OF assms(1) DEPSDIRS_lookup[OF assms(2)]]
  by (rule reset_fails) (use assms(3) in \<open>simp add: build_dir_def\<close>)


lemma three_runs:
  assumes "seq (run h c1 d) (seq (run h c2 d) (run h c3 d)) s = (r, s', evs)"
  shows "\<exists>outs. outs \<noteq> [] \<and> length outs \<le> 3 \<and> runs evs = zip [c1, c2, c3] (map (Pair d) outs) \<and>
           hd outs = fst (subprocess h c1 d s) \<and> set (butlast outs) \<subseteq> {Exited 0} \<and>
           (r = Inr () \<longleftrightarrow> outs = [Exited 0, Exited 0, Exited 0]) \<and>
           (length outs = 3 \<or> last outs \<noteq> Exited 0) \<and>
           r = raised (fst (last (runs evs))) (last outs)"
proof -
  define o1 where "o1 = fst (subprocess h c1 d s)"
  from seq_cases[OF assms] consider
    (a) e where "run h c1 d s = (Inl e, s', evs)" "r = Inl e"
  | (b) s1 e1 e2 where "run h c1 d s = (Inr (), s1, e1)"
       "seq (run h c2 d) (run h c3 d) s1 = (r, s', e2)" "evs = e1 @ e2"
    by blast
  then show ?thesis
  proof cases
    case a
    then have rs: "runs evs = [(c1, d, o1)]" and ra: "raised c1 o1 = Inl e"
      by (auto simp: run_result o1_def)
    from ra have bad: "o1 \<noteq> Exited 0" using raised_Inr[of c1 o1 "()"] by auto
    from rs have "runs evs = zip [c1, c2, c3] (map (Pair d) [o1])" by simp
    with a(2) ra bad rs show ?thesis by (intro exI[of _ "[o1]"]) (simp add: o1_def)
  next
    case b
    then have r1: "runs e1 = [(c1, d, o1)]" and "raised c1 o1 = Inr ()" by (auto simp: run_result o1_def)
    then have o1: "o1 = Exited 0" by (simp add: raised_Inr)
    define o2 where "o2 = fst (subprocess h c2 d s1)"
    from seq_cases[OF b(2)] consider
      (c) e where "run h c2 d s1 = (Inl e, s', e2)" "r = Inl e"
    | (d) s2 e3 e4 where "run h c2 d s1 = (Inr (), s2, e3)" "run h c3 d s2 = (r, s', e4)" "e2 = e3 @ e4"
      by blast
    then show ?thesis
    proof cases
      case c
      then have r2: "runs e2 = [(c2, d, o2)]" and ra: "raised c2 o2 = Inl e"
        by (auto simp: run_result o2_def)
      from ra have bad: "o2 \<noteq> Exited 0" using raised_Inr[of c2 o2 "()"] by auto
      from r1 r2 b(3) have rs: "runs evs = [(c1, d, o1), (c2, d, o2)]" by (simp add: runs_append)
      then have "runs evs = zip [c1, c2, c3] (map (Pair d) [o1, o2])" by simp
      with c(2) o1 ra bad rs show ?thesis by (intro exI[of _ "[o1, o2]"]) (simp add: o1_def[symmetric])
    next
      case d
      define o3 where "o3 = fst (subprocess h c3 d s2)"
      from d have r2: "runs e3 = [(c2, d, o2)]" and "raised c2 o2 = Inr ()"
        and r3: "runs e4 = [(c3, d, o3)]" and r: "r = raised c3 o3"
        by (auto simp: run_result o2_def o3_def)
      then have o2: "o2 = Exited 0" by (simp add: raised_Inr)
      from r1 r2 r3 b(3) d(3) have rs: "runs evs = [(c1, d, o1), (c2, d, o2), (c3, d, o3)]"
        by (simp add: runs_append)
      then have "runs evs = zip [c1, c2, c3] (map (Pair d) [o1, o2, o3])" by simp
      moreover have "r = Inr () \<longleftrightarrow> o3 = Exited 0" using raised_Inr[of c3 o3 "()"] r by simp
      ultimately show ?thesis using o1 o2 r rs
        by (intro exI[of _ "[o1, o2, o3]"]) (simp add: o1_def[symmetric])
    qed
  qed
qed

lemma build_osg_eq:
  "build_osg h force =
     skip_or h ''osg'' force ''OSG already built. Use --rebuild to force.''
       (cmake_configure_and_build h ''osg'' (Some [''-DOSG_USE_QT=ON'', ''-DDESIRED_QT_VERSION=5'']))"
  by (rule ext) (simp add: build_osg_def skip_or_def)

lemma build_simbody_eq:
  "build_simbody h force =
     skip_or h ''simbody'' force ''Simbody already built. Use --rebuild to force.''
       (cmake_configure_and_build h ''simbody'' None)"
  by (rule ext) (simp add: build_simbody_def skip_or_def)

lemma build_opensim_eq:
  "build_opensim h force =
     skip_or h ''opensim'' force ''OpenSim already built. Use --rebuild to force.''
       (cmake_configure_and_build h ''opensim'' (Some (opensim_flags h)))"
  by (rule ext)
     (simp add: build_opensim_def skip_or_def DEPSDIRS_lookup dep_names_def opensim_flags_def
        install_dir_def pjoin_def Let_def split: sum.splits)

lemma builder_unskipped:
  assumes "(n, b, src, extra) \<in> set (build_steps h)"
    and "n = ''scone'' \<or> \<not> exists_path (install_dir h n) s \<or> force"
  shows "\<exists>extra'. b force s = cmake_configure_and_build h n extra' s \<and>
           map_of (SUBDIRS h) n = Some src \<and> n \<in> set dep_names \<and>
           cmake_cmd src (install_dir h n) extra' = configure_cmd h src n extra"
proof -
  from assms(1) consider
    (osg) "n = ''osg''" "b = build_osg h" "src = root_dir h @ [''submodules'', ''OpenSceneGraph'']"
      "extra = [''-DOSG_USE_QT=ON'', ''-DDESIRED_QT_VERSION=5'']"
  | (simbody) "n = ''simbody''" "b = build_simbody h" "src = root_dir h @ [''submodules'', ''simbody'']"
      "extra = []"
  | (opensim) "n = ''opensim''" "b = build_opensim h" "src = root_dir h @ [''submodules'', ''opensim3-scone'']"
      "extra = opensim_flags h"
  | (scone) "n = ''scone''" "b = build_scone h" "src = root_dir h @ [''scone'']" "extra = []"
    by (auto simp: build_steps_def)
  then show ?thesis
  proof cases
    case osg
    have "build_osg h force s = cmake_configure_and_build h ''osg'' (Some extra) s"
      using assms(2) osg by (simp add: build_osg_eq skip_or_go dep_names_def)
    then show ?thesis using osg
      by (intro exI[of _ "Some extra"])
         (simp add: SUBDIRS_def SUB_def pjoin_def dep_names_def cmake_cmd_def configure_cmd_def)
  next
    case simbody
    have "build_simbody h force s = cmake_configure_and_build h ''simbody'' None s"
      using assms(2) simbody by (simp add: build_simbody_eq skip_or_go dep_names_def)
    then show ?thesis using simbody
      by (intro exI[of _ None])
         (simp add: SUBDIRS_def SUB_def pjoin_def dep_names_def cmake_cmd_def configure_cmd_def)
  next
    case opensim
    have ne: "opensim_flags h \<noteq> []" by (simp add: opensim_flags_def)
    have "build_opensim h force s = cmake_configure_and_build h ''opensim'' (Some extra) s"
      using assms(2) opensim by (simp add: build_opensim_eq skip_or_go dep_names_def)
    then show ?thesis using opensim ne
      by (intro exI[of _ "Some extra"])
         (simp add: SUBDIRS_def SUB_def pjoin_def dep_names_def cmake_cmd_def configure_cmd_def)
  next
    case scone
    then show ?thesis
      by (intro exI[of _ None])
         (simp add: build_scone_def SUBDIRS_def SUB_def pjoin_def dep_names_def cmake_cmd_def configure_cmd_def)
  qed
qed

lemma builder_skipped:
  assumes "(n, b, src, extra) \<in> set (build_steps h)"
    and "n \<noteq> ''scone''" "exists_path (install_dir h n) s" "\<not> force"
  shows "\<exists>notice. b force s = (Inr (), s, [Printed notice])"
  using assms
  by (auto simp: build_steps_def build_osg_eq build_simbody_eq build_opensim_eq skip_or_skip dep_names_def)


lemma unskipped_step:
  assumes "(n, b, src, extra) \<in> set (build_steps h)"
    and "n = ''scone'' \<or> \<not> exists_path (install_dir h n) s \<or> force"
    and "b force s = (r, s', evs)"
  shows "\<exists>outs. length outs \<le> 3 \<and> runs evs = attempts h n src extra outs \<and>
           set (butlast outs) \<subseteq> {Exited 0} \<and>
           (r = Inr () \<longleftrightarrow> outs = [Exited 0, Exited 0, Exited 0]) \<and>
           (if resettable (build_dir h n) s
            then outs \<noteq> [] \<and>
                 hd outs = fst (subprocess h (configure_cmd h src n extra) (Some (build_dir h n))
                                  (reset_fs (build_dir h n) s)) \<and>
                 (length outs = 3 \<or> last outs \<noteq> Exited 0) \<and>
                 r = raised (fst (last (runs evs))) (last outs)
            else outs = [])"
proof -
  from builder_unskipped[of n b src extra h s force, OF assms(1,2)] obtain extra' where
    b: "b force s = cmake_configure_and_build h n extra' s" and
    src: "map_of (SUBDIRS h) n = Some src" and n: "n \<in> set dep_names" and
    cmd: "cmake_cmd src (install_dir h n) extra' = configure_cmd h src n extra" by blast
  show ?thesis
  proof (cases "resettable (build_dir h n) s")
    case True
    with assms(3) b have "seq (run h (configure_cmd h src n extra) (Some (build_dir h n)))
      (seq (run h (build_cmd h) (Some (build_dir h n)))
           (run h install_cmd (Some (build_dir h n)))) (reset_fs (build_dir h n) s) = (r, s', evs)"
      by (simp add: ccb_reset[OF src n] cmd)
    from three_runs[OF this] obtain outs where "outs \<noteq> []" "length outs \<le> 3"
      "runs evs = zip [configure_cmd h src n extra, build_cmd h, install_cmd]
          (map (Pair (Some (build_dir h n))) outs)"
      "hd outs = fst (subprocess h (configure_cmd h src n extra) (Some (build_dir h n))
          (reset_fs (build_dir h n) s))"
      "set (butlast outs) \<subseteq> {Exited 0}" "r = Inr () \<longleftrightarrow> outs = [Exited 0, Exited 0, Exited 0]"
      "length outs = 3 \<or> last outs \<noteq> Exited 0"
      "r = raised (fst (last (runs evs))) (last outs)"
      by blast
    with True show ?thesis by (intro exI[of _ outs]) (simp add: attempts_def)
  next
    case False
    from ccb_no_reset[OF src n False, of extra'] assms(3) b have "evs = []" "r \<noteq> Inr ()" by auto
    with False show ?thesis by (intro exI[of _ "[]"]) (simp add: attempts_def)
  qed
qed

lemma any_step:
  assumes "(n, b, src, extra) \<in> set (build_steps h)" and "b force s = (r, s', evs)"
  shows "\<exists>outs. length outs \<le> 3 \<and> runs evs = attempts h n src extra outs \<and>
           set (butlast outs) \<subseteq> {Exited 0} \<and>
           (r = Inr () \<longrightarrow> outs = [] \<or> outs = [Exited 0, Exited 0, Exited 0])"
proof (cases "n = ''scone'' \<or> \<not> exists_path (install_dir h n) s \<or> force")
  case True
  from unskipped_step[OF assms(1) True assms(2)] show ?thesis by blast
next
  case False
  with builder_skipped[of n b src extra h s force, OF assms(1)] assms(2) have "evs \<noteq> [] \<and> runs evs = []" by auto
  then show ?thesis by (intro exI[of _ "[]"]) (simp add: attempts_def)
qed

lemma progress_shape:
  assumes "outs \<noteq> []" "length outs \<le> 3" "length outs = 3 \<or> last outs \<noteq> Exited 0"
  shows "(outs ! 0 = Exited 0 \<longrightarrow> 1 < length outs) \<and>
         (1 < length outs \<and> outs ! 1 = Exited 0 \<longrightarrow> length outs = 3)"
proof -
  from assms(1) obtain a r1 where o1: "outs = a # r1" by (cases outs) auto
  show ?thesis
  proof (cases r1)
    case Nil
    with o1 assms(3) show ?thesis by simp
  next
    case (Cons b r2)
    show ?thesis
    proof (cases r2)
      case Nil
      with o1 Cons assms(3) show ?thesis by simp
    next
      case (Cons c r3)
      with o1 \<open>r1 = b # r2\<close> assms(2) show ?thesis by simp
    qed
  qed
qed

lemma attempts_cwds:
  "length outs \<le> 3 \<Longrightarrow>
     map (\<lambda>x. fst (snd x)) (attempts h n src extra outs) = replicate (length outs) (Some (build_dir h n))"
proof -
  have *: "length outs \<le> length cs \<Longrightarrow>
      map (\<lambda>x. fst (snd x)) (zip cs (map (Pair d) outs)) = replicate (length outs) d" for cs :: "string list list" and d :: "path option"
  proof (induction outs arbitrary: cs)
    case Nil
    then show ?case by simp
  next
    case (Cons a outs)
    then obtain c cs' where "cs = c # cs'" by (cases cs) auto
    with Cons show ?case by simp
  qed
  assume "length outs \<le> 3"
  then show ?thesis unfolding attempts_def by (intro *) simp
qed

lemma outcomes_attempts:
  "length outs \<le> 3 \<Longrightarrow> map (\<lambda>x. snd (snd x)) (attempts h n src extra outs) = outs"
proof -
  have *: "length outs \<le> length cs \<Longrightarrow>
      map (\<lambda>x. snd (snd x)) (zip cs (map (Pair d) outs)) = outs" for cs :: "string list list" and d :: "path option"
  proof (induction outs arbitrary: cs)
    case Nil
    then show ?case by simp
  next
    case (Cons a outs)
    then obtain c cs' where "cs = c # cs'" by (cases cs) auto
    with Cons show ?case by simp
  qed
  assume "length outs \<le> 3"
  then show ?thesis unfolding attempts_def by (intro *) simp
qed

lemmas evals = build_osg_def build_simbody_def build_opensim_def build_scone_def build_all_def
  skip_or_def already_built_def DEPSDIRS_def SUBDIRS_def SUB_def DEPS_def
  pjoin_def exists_path_def cmake_configure_and_build_def seq_def fs_op_def mkdir_def rmtree_def skip_def
  run_def cmake_cmd_def path_str_def parent_def print_def
  install_dir_def build_dir_def dep_dir_def Let_def CORES_def str_nat.simps digit_char_def
  is_dir_def resettable_def
  ensure_dirs_def main_def dispatch_def install_system_deps_def
  configure_cmd_def build_cmd_def install_cmd_def attempts_def outcomes_def build_steps_def

lemmas hosts = linux_host_def mac_host_def broken_host_def single_core_host_def simbody_broken_host_def
  install_broken_host_def

lemmas worlds = prepared_def installed_def checkout_def osg_only_def install_is_file_def
  install_is_dangling_def

lemma mkdir_each_Cons: "mkdir_each (d # ds) = seq (fs_op (mkdir d True)) (mkdir_each ds)"
  by (rule ext) simp

lemma ensure_dirs_eq: "ensure_dirs h = mkdir_each (made_dirs h)"
  by (simp add: ensure_dirs_def made_dirs_def SUB_def DEPS_def DEPSDIRS_def SUBDIRS_def pjoin_def
      mkdir_each_Cons)

lemma mkdir_True:
  assumes "mkdir p True s = Inr s'"
  shows "is_dir p s'" and "\<And>q. s' q \<noteq> s q \<Longrightarrow> q = p \<and> s q = None \<and> s' q = Some Dir"
  using assms by (auto simp: mkdir_def is_dir_def split: option.splits entry.splits if_splits)

lemma mkdir_each_effect:
  assumes "mkdir_each ps s = (r, s', evs)"
  shows "evs = [] \<and> (\<forall>q. s' q \<noteq> s q \<longrightarrow> q \<in> set ps \<and> s q = None \<and> s' q = Some Dir) \<and>
         (r = Inr () \<longrightarrow> (\<forall>p \<in> set ps. is_dir p s'))"
  using assms
proof (induction ps arbitrary: s)
  case Nil
  then show ?case by (simp add: skip_def)
next
  case (Cons p ps)
  show ?case
  proof (cases "mkdir p True s")
    case (Inl e)
    with Cons.prems show ?thesis by (auto simp: seq_def fs_op_def)
  next
    case (Inr s1)
    with Cons.prems have rest: "mkdir_each ps s1 = (r, s', evs)"
      by (simp add: seq_def fs_op_def split: prod.splits)
    note ih = Cons.IH[OF rest]
    note m = mkdir_True[OF Inr]
    have chg: "\<forall>q. s' q \<noteq> s q \<longrightarrow> q \<in> set (p # ps) \<and> s q = None \<and> s' q = Some Dir"
    proof (intro allI impI)
      fix q assume d: "s' q \<noteq> s q"
      show "q \<in> set (p # ps) \<and> s q = None \<and> s' q = Some Dir"
      proof (cases "s' q = s1 q")
        case True
        with d have "s1 q \<noteq> s q" by simp
        from m(2)[OF this] True show ?thesis by auto
      next
        case False
        with ih have q: "q \<in> set ps" "s1 q = None" "s' q = Some Dir" by auto
        have "s q = None"
        proof (rule ccontr)
          assume "s q \<noteq> None"
          with q(2) have "s1 q \<noteq> s q" by auto
          from m(2)[OF this] q(2) show False by auto
        qed
        with q show ?thesis by simp
      qed
    qed
    have "r = Inr () \<longrightarrow> (\<forall>x \<in> set (p # ps). is_dir x s')"
    proof (intro impI ballI)
      fix x assume r: "r = Inr ()" and x: "x \<in> set (p # ps)"
      show "is_dir x s'"
      proof (cases "x \<in> set ps")
        case True
        with ih r show ?thesis by simp
      next
        case False
        with x have xp: "x = p" by simp
        show ?thesis
        proof (cases "s' p = s1 p")
          case True
          with m(1) xp show ?thesis by (simp add: is_dir_def)
        next
          case False
          with ih xp show ?thesis by (simp add: is_dir_def)
        qed
      qed
    qed
    with ih chg show ?thesis by simp
  qed
qed

lemma fail_fast_mkdir_each: "fail_fast (mkdir_each ps)"
  by (induction ps) (simp_all add: mkdir_each_Cons fail_fast_seq fail_fast_fs_op,
      rule fail_fast_silent, simp add: skip_def)

lemma fail_fast_skip_or:
  assumes "fail_fast body"
  shows "fail_fast (skip_or h n force notice body)"
proof -
  have eq: "skip_or h n force notice body =
      (case map_of (DEPSDIRS h) n of
         None \<Rightarrow> (\<lambda>s. (Inl (KeyError n), s, []))
       | Some d \<Rightarrow> (\<lambda>s. if exists_path (pjoin d ''install'') s \<and> \<not> force then print notice s else body s))"
    by (rule ext) (simp add: skip_or_def already_built_def split: option.splits)
  show ?thesis unfolding eq
    by (cases "map_of (DEPSDIRS h) n")
       (simp_all add: fail_fast_raise fail_fast_if fail_fast_print assms)
qed

lemma fail_fast_builders:
  "fail_fast (build_osg h force)" "fail_fast (build_simbody h force)"
  "fail_fast (build_opensim h force)" "fail_fast (build_scone h force)"
  by (simp_all add: build_osg_eq build_simbody_eq build_opensim_eq build_scone_def
      fail_fast_skip_or fail_fast_ccb)

lemma fail_fast_main: "fail_fast (main h a)"
proof -
  have "fail_fast (dispatch h a)"
    by (cases "target a")
       (simp_all add: dispatch_def install_system_deps_def build_all_def fail_fast_builders
          fail_fast_seq fail_fast_run)
  then show ?thesis
    by (simp add: main_def ensure_dirs_eq fail_fast_seq fail_fast_mkdir_each)
qed

lemma cwds_append: "cwds (xs @ ys) = cwds xs @ cwds ys"
  by (simp add: cwds_def runs_append)

lemma cwds_Nil: "cwds [] = []"
  by (simp add: cwds_def)

lemma step_cwds:
  assumes "(n, b, src, extra) \<in> set (build_steps h)" and "b force s = (r, s', evs)"
  shows "\<exists>k \<le> 3. cwds evs = replicate k (Some (build_dir h n))"
proof -
  from any_step[OF assms] obtain outs where
    "length outs \<le> 3" "runs evs = attempts h n src extra outs" by blast
  then show ?thesis by (intro exI[of _ "length outs"]) (simp add: cwds_def attempts_cwds)
qed

lemma steps_mem:
  "(''osg'', build_osg h, root_dir h @ [''submodules'', ''OpenSceneGraph''],
      [''-DOSG_USE_QT=ON'', ''-DDESIRED_QT_VERSION=5'']) \<in> set (build_steps h)"
  "(''simbody'', build_simbody h, root_dir h @ [''submodules'', ''simbody''], []) \<in> set (build_steps h)"
  "(''opensim'', build_opensim h, root_dir h @ [''submodules'', ''opensim3-scone''], opensim_flags h)
      \<in> set (build_steps h)"
  "(''scone'', build_scone h, root_dir h @ [''scone''], []) \<in> set (build_steps h)"
  by (simp_all add: build_steps_def)

lemma main_dirs_silent: "ensure_dirs h s = (r, s', evs) \<Longrightarrow> evs = []"
  using mkdir_each_effect[of "made_dirs h" s r s' evs] by (simp add: ensure_dirs_eq)

subsection \<open>The properties of the specification\<close>

text \<open>
  C3. For osg, simbody and opensim: when the install directory of the dependency exists
  and the build is not forced, the build step starts no subprocess and changes nothing
  on the file system; it returns normally and its only event is the printed notice.
\<close>

theorem installed_dependency_is_skipped:
  "(exists_path (install_dir h ''osg'') s \<longrightarrow>
      build_osg h False s = (Inr (), s, [Printed ''OSG already built. Use --rebuild to force.''])) \<and>
   (exists_path (install_dir h ''simbody'') s \<longrightarrow>
      build_simbody h False s = (Inr (), s, [Printed ''Simbody already built. Use --rebuild to force.''])) \<and>
   (exists_path (install_dir h ''opensim'') s \<longrightarrow>
      build_opensim h False s = (Inr (), s, [Printed ''OpenSim already built. Use --rebuild to force.'']))"
  by (simp add: build_osg_eq build_simbody_eq build_opensim_eq skip_or_skip dep_names_def)

theorem installed_dependency_is_skipped_witness:
  "installed (install_dir linux_host ''osg'') = Some Dir \<and>
   installed (install_dir linux_host ''simbody'') = Some Dir \<and>
   installed (install_dir linux_host ''opensim'') = Some Dir \<and>
   runs (snd (snd (build_osg linux_host False installed))) = [] \<and>
   runs (snd (snd (build_simbody linux_host False installed))) = [] \<and>
   runs (snd (snd (build_opensim linux_host False installed))) = [] \<and>
   fst (build_opensim linux_host False installed) = Inr ()"
  using installed_dependency_is_skipped [of linux_host installed]
  by (simp add: installed_def install_dir_def dep_dir_def linux_host_def exists_path_def)

text \<open>
  C4, as the code has it. A build step that is not skipped (the install path does not
  exist, or the build is forced, or the step is that of scone) first resets the build
  directory. Where that can be done it then starts configure in the build directory, on
  the file system in which the build directory was deleted and made anew, with the source
  path, the Release build type, the install prefix and the minimum policy version; it
  starts build exactly when configure exited with status 0, and install exactly when build
  exited with status 0. The step returns normally exactly when all three ran and exited
  with status 0, and otherwise raises what the last subprocess it started gives. Where
  the build directory cannot be reset, the step raises and no subprocess is started.
\<close>

theorem unskipped_step_runs_in_order:
  assumes "(n, b, src, extra) \<in> set (build_steps h)"
    and "n = ''scone'' \<or> \<not> exists_path (install_dir h n) s \<or> force"
    and "b force s = (r, s', evs)"
  shows "runs evs = attempts h n src extra (outcomes evs) \<and>
         length (outcomes evs) \<le> 3 \<and>
         take 5 (configure_cmd h src n extra) =
           [''cmake'', path_str src, ''-DCMAKE_BUILD_TYPE=Release'',
            ''-DCMAKE_INSTALL_PREFIX='' @ path_str (install_dir h n),
            ''-DCMAKE_POLICY_VERSION_MINIMUM=3.5''] \<and>
         set (butlast (outcomes evs)) \<subseteq> {Exited 0} \<and>
         (r = Inr () \<longleftrightarrow> outcomes evs = [Exited 0, Exited 0, Exited 0]) \<and>
         (if resettable (build_dir h n) s
          then outcomes evs \<noteq> [] \<and>
               hd (outcomes evs) =
                 fst (subprocess h (configure_cmd h src n extra) (Some (build_dir h n))
                        (reset_fs (build_dir h n) s)) \<and>
               (outcomes evs ! 0 = Exited 0 \<longrightarrow> 1 < length (outcomes evs)) \<and>
               (1 < length (outcomes evs) \<and> outcomes evs ! 1 = Exited 0 \<longrightarrow>
                  length (outcomes evs) = 3) \<and>
               r = raised (fst (last (runs evs))) (last (outcomes evs))
          else outcomes evs = [] \<and> r \<noteq> Inr ())"
proof -
  from unskipped_step[OF assms] obtain outs where
    len: "length outs \<le> 3" and runs: "runs evs = attempts h n src extra outs" and
    rest: "set (butlast outs) \<subseteq> {Exited 0}" "r = Inr () \<longleftrightarrow> outs = [Exited 0, Exited 0, Exited 0]"
      "if resettable (build_dir h n) s
       then outs \<noteq> [] \<and>
            hd outs = fst (subprocess h (configure_cmd h src n extra) (Some (build_dir h n))
                             (reset_fs (build_dir h n) s)) \<and>
            (length outs = 3 \<or> last outs \<noteq> Exited 0) \<and>
            r = raised (fst (last (runs evs))) (last outs)
       else outs = []"
    by blast
  from len runs have outs: "outcomes evs = outs" by (simp add: outcomes_def outcomes_attempts)
  have cmd: "take 5 (configure_cmd h src n extra) =
           [''cmake'', path_str src, ''-DCMAKE_BUILD_TYPE=Release'',
            ''-DCMAKE_INSTALL_PREFIX='' @ path_str (install_dir h n),
            ''-DCMAKE_POLICY_VERSION_MINIMUM=3.5'']" by (simp add: configure_cmd_def)
  have tail: "if resettable (build_dir h n) s
          then outs \<noteq> [] \<and>
               hd outs =
                 fst (subprocess h (configure_cmd h src n extra) (Some (build_dir h n))
                        (reset_fs (build_dir h n) s)) \<and>
               (outs ! 0 = Exited 0 \<longrightarrow> 1 < length outs) \<and>
               (1 < length outs \<and> outs ! 1 = Exited 0 \<longrightarrow> length outs = 3) \<and>
               r = raised (fst (last (runs evs))) (last outs)
          else outs = [] \<and> r \<noteq> Inr ()"
  proof (cases "resettable (build_dir h n) s")
    case True
    with rest(3) have ne: "outs \<noteq> []" and stop: "length outs = 3 \<or> last outs \<noteq> Exited 0" by simp_all
    from progress_shape[OF ne len stop] True rest(3) show ?thesis by simp
  next
    case False
    with rest(2,3) show ?thesis by simp
  qed
  from len runs rest(1,2) cmd tail show ?thesis unfolding outs by simp
qed

theorem unskipped_step_runs_in_order_witness:
  "\<not> exists_path (install_dir linux_host ''simbody'') prepared \<and>
   resettable (build_dir linux_host ''simbody'') prepared \<and>
   fst (build_simbody linux_host False prepared) = Inr () \<and>
   runs (snd (snd (build_simbody linux_host False prepared))) =
     [([''cmake'', ''/repo/submodules/simbody'', ''-DCMAKE_BUILD_TYPE=Release'',
        ''-DCMAKE_INSTALL_PREFIX=/repo/dependencies/simbody/install'',
        ''-DCMAKE_POLICY_VERSION_MINIMUM=3.5''],
       Some [''repo'', ''dependencies'', ''simbody'', ''build''], Exited 0),
      ([''cmake'', ''--build'', ''.'', ''--parallel'', ''4''],
       Some [''repo'', ''dependencies'', ''simbody'', ''build''], Exited 0),
      ([''cmake'', ''--install'', ''.''],
       Some [''repo'', ''dependencies'', ''simbody'', ''build''], Exited 0)] \<and>
   outcomes (snd (snd (build_simbody install_broken_host False prepared))) =
     [Exited 0, Exited 0, Exited 2] \<and>
   fst (build_simbody install_broken_host False prepared) =
     Inl (CalledProcessError 2 [''cmake'', ''--install'', ''.'']) \<and>
   length (outcomes (snd (snd (build_simbody linux_host False prepared)))) \<le> 3"
proof -
  have m: "(''simbody'', build_simbody linux_host, [''repo'', ''submodules'', ''simbody''], [])
      \<in> set (build_steps linux_host)"
    by (simp add: build_steps_def linux_host_def)
  have i: "''simbody'' = ''scone'' \<or> \<not> exists_path (install_dir linux_host ''simbody'') prepared \<or> False"
    by (simp add: install_dir_def dep_dir_def linux_host_def prepared_def exists_path_def)
  have e: "build_simbody linux_host False prepared =
      (fst (build_simbody linux_host False prepared), fst (snd (build_simbody linux_host False prepared)),
       snd (snd (build_simbody linux_host False prepared)))" by simp
  have ev: "\<not> exists_path (install_dir linux_host ''simbody'') prepared \<and>
   resettable (build_dir linux_host ''simbody'') prepared \<and>
   fst (build_simbody linux_host False prepared) = Inr () \<and>
   runs (snd (snd (build_simbody linux_host False prepared))) =
     [([''cmake'', ''/repo/submodules/simbody'', ''-DCMAKE_BUILD_TYPE=Release'',
        ''-DCMAKE_INSTALL_PREFIX=/repo/dependencies/simbody/install'',
        ''-DCMAKE_POLICY_VERSION_MINIMUM=3.5''],
       Some [''repo'', ''dependencies'', ''simbody'', ''build''], Exited 0),
      ([''cmake'', ''--build'', ''.'', ''--parallel'', ''4''],
       Some [''repo'', ''dependencies'', ''simbody'', ''build''], Exited 0),
      ([''cmake'', ''--install'', ''.''],
       Some [''repo'', ''dependencies'', ''simbody'', ''build''], Exited 0)] \<and>
   outcomes (snd (snd (build_simbody install_broken_host False prepared))) =
     [Exited 0, Exited 0, Exited 2] \<and>
   fst (build_simbody install_broken_host False prepared) =
     Inl (CalledProcessError 2 [''cmake'', ''--install'', ''.''])"
    by (simp add: evals hosts worlds)
  note len = unskipped_step_runs_in_order[OF m i e, THEN conjunct2, THEN conjunct1]
  from ev len show ?thesis by simp
qed

text \<open>
  The claim as stated fails where configure exits with a status other than 0: the step
  is not skipped, and build and install are never started.
\<close>

theorem failing_configure_counterexample:
  "\<not> exists_path (install_dir broken_host ''simbody'') prepared \<and>
   fst (build_simbody broken_host False prepared) =
     Inl (CalledProcessError 2
       [''cmake'', ''/repo/submodules/simbody'', ''-DCMAKE_BUILD_TYPE=Release'',
        ''-DCMAKE_INSTALL_PREFIX=/repo/dependencies/simbody/install'',
        ''-DCMAKE_POLICY_VERSION_MINIMUM=3.5'']) \<and>
   map fst (runs (snd (snd (build_simbody broken_host False prepared)))) =
     [[''cmake'', ''/repo/submodules/simbody'', ''-DCMAKE_BUILD_TYPE=Release'',
       ''-DCMAKE_INSTALL_PREFIX=/repo/dependencies/simbody/install'',
       ''-DCMAKE_POLICY_VERSION_MINIMUM=3.5'']]"
  by (simp add: evals hosts worlds)

text \<open>
  C5, as the code has it. The build step of scone is never skipped: whatever the flag
  and whether or not the install directory exists, it first resets the build directory.
  Where that can be done it then starts configure in the build directory, on the file
  system in which the build directory was deleted and made anew; it starts build exactly
  when configure exited with status 0, and install exactly when build exited with status
  0. The step returns normally exactly when all three ran and exited with status 0, and
  otherwise raises what the last subprocess it started gives. Where the build directory
  cannot be reset, the step raises and no subprocess is started.
\<close>

theorem scone_is_never_skipped:
  assumes "build_scone h force s = (r, s', evs)"
  shows "build_scone h (\<not> force) s = (r, s', evs) \<and>
         runs evs = attempts h ''scone'' (root_dir h @ [''scone'']) [] (outcomes evs) \<and>
         length (outcomes evs) \<le> 3 \<and>
         set (butlast (outcomes evs)) \<subseteq> {Exited 0} \<and>
         (r = Inr () \<longleftrightarrow> outcomes evs = [Exited 0, Exited 0, Exited 0]) \<and>
         (if resettable (build_dir h ''scone'') s
          then outcomes evs \<noteq> [] \<and>
               hd (outcomes evs) =
                 fst (subprocess h (configure_cmd h (root_dir h @ [''scone'']) ''scone'' [])
                        (Some (build_dir h ''scone'')) (reset_fs (build_dir h ''scone'') s)) \<and>
               (outcomes evs ! 0 = Exited 0 \<longrightarrow> 1 < length (outcomes evs)) \<and>
               (1 < length (outcomes evs) \<and> outcomes evs ! 1 = Exited 0 \<longrightarrow>
                  length (outcomes evs) = 3) \<and>
               r = raised (fst (last (runs evs))) (last (outcomes evs))
          else outcomes evs = [] \<and> r \<noteq> Inr ())"
proof -
  have m: "(''scone'', build_scone h, root_dir h @ [''scone''], []) \<in> set (build_steps h)"
    by (simp add: build_steps_def)
  from unskipped_step[OF m _ assms] obtain outs where
    len: "length outs \<le> 3" and runs: "runs evs = attempts h ''scone'' (root_dir h @ [''scone'']) [] outs" and
    rest: "set (butlast outs) \<subseteq> {Exited 0}" "r = Inr () \<longleftrightarrow> outs = [Exited 0, Exited 0, Exited 0]"
      "if resettable (build_dir h ''scone'') s
       then outs \<noteq> [] \<and>
            hd outs = fst (subprocess h (configure_cmd h (root_dir h @ [''scone'']) ''scone'' [])
                             (Some (build_dir h ''scone'')) (reset_fs (build_dir h ''scone'') s)) \<and>
            (length outs = 3 \<or> last outs \<noteq> Exited 0) \<and>
            r = raised (fst (last (runs evs))) (last outs)
       else outs = []"
    by blast
  from len runs have outs: "outcomes evs = outs" by (simp add: outcomes_def outcomes_attempts)
  have flag: "build_scone h (\<not> force) s = (r, s', evs)" using assms by (simp add: build_scone_def)
  have tail: "if resettable (build_dir h ''scone'') s
          then outs \<noteq> [] \<and>
               hd outs =
                 fst (subprocess h (configure_cmd h (root_dir h @ [''scone'']) ''scone'' [])
                        (Some (build_dir h ''scone'')) (reset_fs (build_dir h ''scone'') s)) \<and>
               (outs ! 0 = Exited 0 \<longrightarrow> 1 < length outs) \<and>
               (1 < length outs \<and> outs ! 1 = Exited 0 \<longrightarrow> length outs = 3) \<and>
               r = raised (fst (last (runs evs))) (last outs)
          else outs = [] \<and> r \<noteq> Inr ()"
  proof (cases "resettable (build_dir h ''scone'') s")
    case True
    with rest(3) have ne: "outs \<noteq> []" and stop: "length outs = 3 \<or> last outs \<noteq> Exited 0" by simp_all
    from progress_shape[OF ne len stop] True rest(3) show ?thesis by simp
  next
    case False
    with rest(2,3) show ?thesis by simp
  qed
  from flag len runs rest(1,2) tail show ?thesis unfolding outs by simp
qed

theorem scone_is_never_skipped_witness:
  "exists_path (install_dir linux_host ''scone'') installed \<and>
   resettable (build_dir linux_host ''scone'') installed \<and>
   fst (build_scone linux_host False installed) = Inr () \<and>
   outcomes (snd (snd (build_scone linux_host False installed))) = [Exited 0, Exited 0, Exited 0] \<and>
   map fst (runs (snd (snd (build_scone linux_host False installed)))) =
     [[''cmake'', ''/repo/scone'', ''-DCMAKE_BUILD_TYPE=Release'',
       ''-DCMAKE_INSTALL_PREFIX=/repo/dependencies/scone/install'',
       ''-DCMAKE_POLICY_VERSION_MINIMUM=3.5''],
      [''cmake'', ''--build'', ''.'', ''--parallel'', ''4''],
      [''cmake'', ''--install'', ''.'']] \<and>
   build_scone linux_host True installed = build_scone linux_host False installed"
proof -
  have e: "build_scone linux_host False installed =
      (fst (build_scone linux_host False installed), fst (snd (build_scone linux_host False installed)),
       snd (snd (build_scone linux_host False installed)))" by simp
  have ev: "exists_path (install_dir linux_host ''scone'') installed \<and>
   resettable (build_dir linux_host ''scone'') installed \<and>
   fst (build_scone linux_host False installed) = Inr () \<and>
   outcomes (snd (snd (build_scone linux_host False installed))) = [Exited 0, Exited 0, Exited 0] \<and>
   map fst (runs (snd (snd (build_scone linux_host False installed)))) =
     [[''cmake'', ''/repo/scone'', ''-DCMAKE_BUILD_TYPE=Release'',
       ''-DCMAKE_INSTALL_PREFIX=/repo/dependencies/scone/install'',
       ''-DCMAKE_POLICY_VERSION_MINIMUM=3.5''],
      [''cmake'', ''--build'', ''.'', ''--parallel'', ''4''],
      [''cmake'', ''--install'', ''.'']]"
    by (simp add: evals hosts worlds)
  from scone_is_never_skipped[OF e, THEN conjunct1] e
  have flag: "build_scone linux_host True installed = build_scone linux_host False installed"
    by simp
  show ?thesis
    apply (insert ev flag)
    apply (intro conjI)
    apply (erule conjE | assumption)+
    done
qed

text \<open>
  The claim as stated fails where configure exits with a status other than 0: scone is
  installed, the step is not skipped, and build and install are never started.
\<close>

theorem scone_failing_configure_counterexample:
  "exists_path (install_dir broken_host ''scone'') installed \<and>
   fst (build_scone broken_host False installed) =
     Inl (CalledProcessError 2
       [''cmake'', ''/repo/scone'', ''-DCMAKE_BUILD_TYPE=Release'',
        ''-DCMAKE_INSTALL_PREFIX=/repo/dependencies/scone/install'',
        ''-DCMAKE_POLICY_VERSION_MINIMUM=3.5'']) \<and>
   map fst (runs (snd (snd (build_scone broken_host False installed)))) =
     [[''cmake'', ''/repo/scone'', ''-DCMAKE_BUILD_TYPE=Release'',
       ''-DCMAKE_INSTALL_PREFIX=/repo/dependencies/scone/install'',
       ''-DCMAKE_POLICY_VERSION_MINIMUM=3.5'']]"
  by (simp add: evals hosts worlds)




text \<open>
  C8. The build invocation of a build step, the second subprocess it starts, is
  \<^verbatim>\<open>cmake --build . --parallel N\<close> with \<open>N\<close> the processor count divided by two and rounded
  down, as \<^verbatim>\<open>CORES\<close> has it; nothing raises a low value, and on a host with one processor
  the degree passed is 0.
\<close>

theorem build_parallelism_is_half_the_processors:
  assumes "(n, b, src, extra) \<in> set (build_steps h)"
    and "b force s = (r, s', evs)"
    and "1 < length (runs evs)"
  shows "CORES h = cpu_count h div 2 \<and>
         runs evs ! 1 =
           ([''cmake'', ''--build'', ''.'', ''--parallel'', str_nat (cpu_count h div 2)],
            Some (build_dir h n), snd (snd (runs evs ! 1))) \<and>
         (cpu_count h = 1 \<longrightarrow>
            fst (runs evs ! 1) = [''cmake'', ''--build'', ''.'', ''--parallel'', ''0''])"
proof -
  from any_step[OF assms(1,2)] obtain outs where
    len: "length outs \<le> 3" and runs: "runs evs = attempts h n src extra outs" by blast
  from assms(3) runs have "1 < length outs" by (simp add: attempts_def)
  then obtain o1 o2 rest where outs: "outs = o1 # o2 # rest"
    by (cases outs; cases "tl outs") auto
  have "runs evs ! 1 = (build_cmd h, Some (build_dir h n), o2)"
    by (simp add: runs outs attempts_def)
  moreover have "str_nat (1 div 2) = ''0''" by (simp add: str_nat.simps digit_char_def)
  ultimately show ?thesis by (auto simp: build_cmd_def CORES_def)
qed

theorem build_parallelism_is_half_the_processors_witness:
  "(''osg'', build_osg single_core_host, [''repo'', ''submodules'', ''OpenSceneGraph''],
      [''-DOSG_USE_QT=ON'', ''-DDESIRED_QT_VERSION=5'']) \<in> set (build_steps single_core_host) \<and>
   1 < length (runs (snd (snd (build_osg single_core_host False prepared)))) \<and>
   cpu_count single_core_host = 1 \<and>
   CORES single_core_host = 0 \<and>
   runs (snd (snd (build_osg single_core_host False prepared))) ! 1 =
     ([''cmake'', ''--build'', ''.'', ''--parallel'', ''0''],
      Some [''repo'', ''dependencies'', ''osg'', ''build''], Exited 0)"
proof -
  have m: "(''osg'', build_osg single_core_host, [''repo'', ''submodules'', ''OpenSceneGraph''],
      [''-DOSG_USE_QT=ON'', ''-DDESIRED_QT_VERSION=5'']) \<in> set (build_steps single_core_host)"
    by (simp add: build_steps_def single_core_host_def linux_host_def)
  have e: "build_osg single_core_host False prepared =
      (fst (build_osg single_core_host False prepared), fst (snd (build_osg single_core_host False prepared)),
       snd (snd (build_osg single_core_host False prepared)))" by simp
  have l: "1 < length (runs (snd (snd (build_osg single_core_host False prepared))))"
    by (simp add: evals hosts worlds)
  from build_parallelism_is_half_the_processors[OF m e l] m l show ?thesis
    by (simp add: evals hosts worlds)
qed

text \<open>
  C6. The configure invocation of the opensim step, the first subprocess it starts, runs
  in the build directory of opensim. Its arguments include the install path of simbody as
  \<^verbatim>\<open>SIMBODY_HOME\<close> and the flags that turn off tests and examples; on \<^verbatim>\<open>darwin\<close> they include
  the deployment target, the choice of the standard library and the rpath relative to the
  executable, on every other platform the rpath \<^verbatim>\<open>$ORIGIN\<close> instead.
\<close>

theorem opensim_configure_flags:
  assumes "build_opensim h force s = (r, s', evs)" and "runs evs \<noteq> []"
  shows "fst (hd (runs evs)) =
           configure_cmd h (root_dir h @ [''submodules'', ''opensim3-scone'']) ''opensim'' (opensim_flags h) \<and>
         fst (snd (hd (runs evs))) = Some (build_dir h ''opensim'') \<and>
         ''-DSIMBODY_HOME='' @ path_str (root_dir h @ [''dependencies'', ''simbody'', ''install''])
           \<in> set (fst (hd (runs evs))) \<and>
         ''-DBUILD_TESTING=OFF'' \<in> set (fst (hd (runs evs))) \<and>
         ''-DBUILD_API_EXAMPLES=OFF'' \<in> set (fst (hd (runs evs))) \<and>
         (if platform h = ''darwin''
          then ''-DCMAKE_OSX_DEPLOYMENT_TARGET=10.10'' \<in> set (fst (hd (runs evs))) \<and>
               ''-DCMAKE_CXX_FLAGS=-stdlib=libc++'' \<in> set (fst (hd (runs evs))) \<and>
               ''-DCMAKE_INSTALL_RPATH=@executable_path/../lib'' \<in> set (fst (hd (runs evs))) \<and>
               ''-DCMAKE_INSTALL_RPATH=$ORIGIN'' \<notin> set (fst (hd (runs evs)))
          else ''-DCMAKE_INSTALL_RPATH=$ORIGIN'' \<in> set (fst (hd (runs evs))) \<and>
               ''-DCMAKE_OSX_DEPLOYMENT_TARGET=10.10'' \<notin> set (fst (hd (runs evs))) \<and>
               ''-DCMAKE_CXX_FLAGS=-stdlib=libc++'' \<notin> set (fst (hd (runs evs))) \<and>
               ''-DCMAKE_INSTALL_RPATH=@executable_path/../lib'' \<notin> set (fst (hd (runs evs))))"
proof -
  have m: "(''opensim'', build_opensim h, root_dir h @ [''submodules'', ''opensim3-scone''], opensim_flags h)
      \<in> set (build_steps h)" by (simp add: build_steps_def)
  from any_step[OF m assms(1)] obtain outs where
    len: "length outs \<le> 3" and
    runs: "runs evs = attempts h ''opensim'' (root_dir h @ [''submodules'', ''opensim3-scone'']) (opensim_flags h) outs"
    by blast
  from assms(2) runs obtain o1 rest where outs: "outs = o1 # rest"
    by (cases outs) (auto simp: attempts_def)
  have hd: "hd (runs evs) =
      (configure_cmd h (root_dir h @ [''submodules'', ''opensim3-scone'']) ''opensim'' (opensim_flags h),
       Some (build_dir h ''opensim''), o1)"
    by (simp add: runs outs attempts_def)
  show ?thesis unfolding hd
    by (simp add: configure_cmd_def opensim_flags_def path_str_def install_dir_def dep_dir_def)
qed

theorem opensim_configure_flags_witness:
  "runs (snd (snd (build_opensim linux_host False prepared))) \<noteq> [] \<and>
   fst (hd (runs (snd (snd (build_opensim linux_host False prepared))))) =
     [''cmake'', ''/repo/submodules/opensim3-scone'', ''-DCMAKE_BUILD_TYPE=Release'',
      ''-DCMAKE_INSTALL_PREFIX=/repo/dependencies/opensim/install'',
      ''-DCMAKE_POLICY_VERSION_MINIMUM=3.5'',
      ''-DSIMBODY_HOME=/repo/dependencies/simbody/install'',
      ''-DCMAKE_VERBOSE_MAKEFILE=FALSE'',
      ''-DCMAKE_INSTALL_RPATH=$ORIGIN'', ''-DBUILD_TESTING=OFF'', ''-DBUILD_API_EXAMPLES=OFF'',
      ''-DBUILD_API_ONLY=OFF'', ''-DCMAKE_POLICY_VERSION_MINIMUM=3.5''] \<and>
   runs (snd (snd (build_opensim mac_host True installed))) \<noteq> [] \<and>
   fst (hd (runs (snd (snd (build_opensim mac_host True installed))))) =
     [''cmake'', ''/repo/submodules/opensim3-scone'', ''-DCMAKE_BUILD_TYPE=Release'',
      ''-DCMAKE_INSTALL_PREFIX=/repo/dependencies/opensim/install'',
      ''-DCMAKE_POLICY_VERSION_MINIMUM=3.5'',
      ''-DSIMBODY_HOME=/repo/dependencies/simbody/install'',
      ''-DCMAKE_VERBOSE_MAKEFILE=FALSE'',
      ''-DCMAKE_OSX_DEPLOYMENT_TARGET=10.10'', ''-DCMAKE_CXX_FLAGS=-stdlib=libc++'',
      ''-DCMAKE_MACOSX_RPATH=TRUE'', ''-DCMAKE_INSTALL_RPATH=@executable_path/../lib'',
      ''-DBUILD_TESTING=OFF'', ''-DBUILD_API_EXAMPLES=OFF'',
      ''-DBUILD_API_ONLY=OFF'', ''-DCMAKE_POLICY_VERSION_MINIMUM=3.5'']"
proof -
  have e1: "build_opensim linux_host False prepared =
      (fst (build_opensim linux_host False prepared), fst (snd (build_opensim linux_host False prepared)),
       snd (snd (build_opensim linux_host False prepared)))" by simp
  have n1: "runs (snd (snd (build_opensim linux_host False prepared))) \<noteq> []"
    by (simp add: evals hosts worlds)
  have e2: "build_opensim mac_host True installed =
      (fst (build_opensim mac_host True installed), fst (snd (build_opensim mac_host True installed)),
       snd (snd (build_opensim mac_host True installed)))" by simp
  have n2: "runs (snd (snd (build_opensim mac_host True installed))) \<noteq> []"
    by (simp add: evals hosts worlds)
  from opensim_configure_flags[OF e1 n1] opensim_configure_flags[OF e2 n2] n1 n2 show ?thesis
    by (simp add: configure_cmd_def opensim_flags_def path_str_def install_dir_def dep_dir_def hosts)
qed



text \<open>
  C7, as the code has it. When a subprocess started during \<^verbatim>\<open>main\<close> exits with a status
  other than 0, it is the last subprocess of the run, \<^verbatim>\<open>main\<close> ends with the
  \<^verbatim>\<open>CalledProcessError\<close> that carries the command and its status, and the process exits
  with status 1, whatever the status of the tool was.
\<close>

theorem failing_subprocess_ends_the_run_with_status_1:
  assumes "main h a s = (r, s', evs)"
    and "(cmd, cwd, Exited rc) \<in> set (runs evs)" and "rc \<noteq> 0"
  shows "r = Inl (CalledProcessError rc cmd) \<and> exit_status r = 1 \<and>
         last (runs evs) = (cmd, cwd, Exited rc)"
proof -
  let ?x = "(cmd, cwd, Exited rc)"
  have bad: "snd (snd ?x) \<noteq> Exited 0" using assms(3) by simp
  from fail_fastD(1)[OF fail_fast_main assms(1,2) bad] assms(3)
  have r: "r = Inl (CalledProcessError rc cmd)" by (simp add: raised_def)
  have "?x \<notin> set (butlast (runs evs))"
    using fail_fastD(2)[OF fail_fast_main assms(1), of ?x] bad by blast
  moreover from assms(2) have "runs evs = butlast (runs evs) @ [last (runs evs)]"
    by (cases "runs evs = []") simp_all
  ultimately have "last (runs evs) = ?x" using assms(2)
    by (metis Un_iff empty_iff empty_set set_ConsD set_append)
  with r show ?thesis by (simp add: exit_status_def)
qed

theorem failing_subprocess_ends_the_run_with_status_1_witness:
  "fst (main broken_host \<lparr>target = Deps, rebuild = False\<rparr> checkout) =
     Inl (CalledProcessError 2 [''sudo'', ''apt-get'', ''update'']) \<and>
   runs (snd (snd (main broken_host \<lparr>target = Deps, rebuild = False\<rparr> checkout))) =
     [([''sudo'', ''apt-get'', ''update''], None, Exited 2)] \<and>
   exit_status (fst (main broken_host \<lparr>target = Deps, rebuild = False\<rparr> checkout)) = 1"
proof -
  have e: "main broken_host \<lparr>target = Deps, rebuild = False\<rparr> checkout =
      (fst (main broken_host \<lparr>target = Deps, rebuild = False\<rparr> checkout),
       fst (snd (main broken_host \<lparr>target = Deps, rebuild = False\<rparr> checkout)),
       snd (snd (main broken_host \<lparr>target = Deps, rebuild = False\<rparr> checkout)))" by simp
  have rs: "runs (snd (snd (main broken_host \<lparr>target = Deps, rebuild = False\<rparr> checkout))) =
     [([''sudo'', ''apt-get'', ''update''], None, Exited 2)]"
    by (simp add: evals hosts worlds)
  then have i: "([''sudo'', ''apt-get'', ''update''], None, Exited 2) \<in>
      set (runs (snd (snd (main broken_host \<lparr>target = Deps, rebuild = False\<rparr> checkout))))"
    by simp
  have n: "(2::int) \<noteq> 0" by simp
  from failing_subprocess_ends_the_run_with_status_1[OF e i n] rs show ?thesis
    by (simp add: exit_status_def)
qed

text \<open>
  The claim as stated fails on a host whose \<^verbatim>\<open>cmake\<close> exits with status 2: the process
  exits with status 1, not 2.
\<close>

theorem exit_status_is_not_the_tool_status_counterexample:
  "runs (snd (snd (main broken_host \<lparr>target = Simbody, rebuild = False\<rparr> checkout))) =
     [([''cmake'', ''/repo/submodules/simbody'', ''-DCMAKE_BUILD_TYPE=Release'',
        ''-DCMAKE_INSTALL_PREFIX=/repo/dependencies/simbody/install'',
        ''-DCMAKE_POLICY_VERSION_MINIMUM=3.5''],
       Some [''repo'', ''dependencies'', ''simbody'', ''build''], Exited 2)] \<and>
   exit_status (fst (main broken_host \<lparr>target = Simbody, rebuild = False\<rparr> checkout)) = 1 \<and>
   exit_status (fst (main broken_host \<lparr>target = Simbody, rebuild = False\<rparr> checkout)) \<noteq> 2"
  by (simp add: evals hosts worlds exit_status_def)

text \<open>
  C2. In a run of target \<^verbatim>\<open>all\<close> in which the step of osg returns and the step of simbody
  raises (a subprocess that exits with a status other than 0, or any other exception),
  \<^verbatim>\<open>main\<close> ends with that exception on the file system the failing step left: nothing
  that the completed steps did is undone, and no subprocess was started but in the build
  directories of osg and simbody, so the steps of opensim and scone never began.
\<close>

theorem simbody_failure_stops_the_run:
  assumes "ensure_dirs h s = (Inr (), s0, ev0)"
    and "build_osg h force s0 = (Inr (), s1, ev1)"
    and "build_simbody h force s1 = (Inl e, s2, ev2)"
  shows "main h \<lparr>target = All, rebuild = force\<rparr> s = (Inl e, s2, ev0 @ ev1 @ ev2) \<and>
         (\<forall>d \<in> set (cwds (ev0 @ ev1 @ ev2)).
            d = Some (build_dir h ''osg'') \<or> d = Some (build_dir h ''simbody''))"
proof -
  have "build_all h force s0 = (Inl e, s2, ev1 @ ev2)"
    using assms(2,3) by (simp add: build_all_def seq_def)
  with assms(1) have m: "main h \<lparr>target = All, rebuild = force\<rparr> s = (Inl e, s2, ev0 @ ev1 @ ev2)"
    by (simp add: main_def dispatch_def seq_def)
  from main_dirs_silent[OF assms(1)] have "ev0 = []" .
  moreover from step_cwds[OF steps_mem(1) assms(2)] obtain k1 where
    "cwds ev1 = replicate k1 (Some (build_dir h ''osg''))" by blast
  moreover from step_cwds[OF steps_mem(2) assms(3)] obtain k2 where
    "cwds ev2 = replicate k2 (Some (build_dir h ''simbody''))" by blast
  ultimately have "\<forall>d \<in> set (cwds (ev0 @ ev1 @ ev2)).
            d = Some (build_dir h ''osg'') \<or> d = Some (build_dir h ''simbody'')"
    by (auto simp: cwds_append cwds_Nil)
  with m show ?thesis by (rule conjI)
qed

theorem simbody_failure_stops_the_run_witness:
  "fst (ensure_dirs simbody_broken_host checkout) = Inr () \<and>
   fst (build_osg simbody_broken_host False (fst (snd (ensure_dirs simbody_broken_host checkout)))) = Inr () \<and>
   fst (main simbody_broken_host \<lparr>target = All, rebuild = False\<rparr> checkout) =
     Inl (CalledProcessError 2
       [''cmake'', ''/repo/submodules/simbody'', ''-DCMAKE_BUILD_TYPE=Release'',
        ''-DCMAKE_INSTALL_PREFIX=/repo/dependencies/simbody/install'',
        ''-DCMAKE_POLICY_VERSION_MINIMUM=3.5'']) \<and>
   cwds (snd (snd (main simbody_broken_host \<lparr>target = All, rebuild = False\<rparr> checkout))) =
     [Some [''repo'', ''dependencies'', ''osg'', ''build''],
      Some [''repo'', ''dependencies'', ''osg'', ''build''],
      Some [''repo'', ''dependencies'', ''osg'', ''build''],
      Some [''repo'', ''dependencies'', ''simbody'', ''build'']] \<and>
   fst (snd (main simbody_broken_host \<lparr>target = All, rebuild = False\<rparr> checkout))
     [''repo'', ''dependencies'', ''osg'', ''build''] = Some Dir \<and>
   fst (snd (main simbody_broken_host \<lparr>target = All, rebuild = False\<rparr> checkout))
     [''repo'', ''dependencies'', ''opensim'', ''build''] = None"
proof -
  let ?h = simbody_broken_host
  let ?s0 = "fst (snd (ensure_dirs ?h checkout))"
  let ?s1 = "fst (snd (build_osg ?h False ?s0))"
  have r0: "fst (ensure_dirs ?h checkout) = Inr ()" by (simp add: evals hosts worlds)
  have r1: "fst (build_osg ?h False ?s0) = Inr ()" by (simp add: evals hosts worlds)
  have r2: "fst (build_simbody ?h False ?s1) =
     Inl (CalledProcessError 2
       [''cmake'', ''/repo/submodules/simbody'', ''-DCMAKE_BUILD_TYPE=Release'',
        ''-DCMAKE_INSTALL_PREFIX=/repo/dependencies/simbody/install'',
        ''-DCMAKE_POLICY_VERSION_MINIMUM=3.5''])" by (simp add: evals hosts worlds)
  have e0: "ensure_dirs ?h checkout = (Inr (), ?s0, snd (snd (ensure_dirs ?h checkout)))"
    using r0 by (simp add: prod_eq_iff)
  have e1: "build_osg ?h False ?s0 = (Inr (), ?s1, snd (snd (build_osg ?h False ?s0)))"
    using r1 by (simp add: prod_eq_iff)
  have e2: "build_simbody ?h False ?s1 =
     (Inl (CalledProcessError 2
       [''cmake'', ''/repo/submodules/simbody'', ''-DCMAKE_BUILD_TYPE=Release'',
        ''-DCMAKE_INSTALL_PREFIX=/repo/dependencies/simbody/install'',
        ''-DCMAKE_POLICY_VERSION_MINIMUM=3.5'']),
      fst (snd (build_simbody ?h False ?s1)), snd (snd (build_simbody ?h False ?s1)))"
    using r2 by (simp add: prod_eq_iff)
  from simbody_failure_stops_the_run[OF e0 e1 e2]
  have m: "fst (main ?h \<lparr>target = All, rebuild = False\<rparr> checkout) =
     Inl (CalledProcessError 2
       [''cmake'', ''/repo/submodules/simbody'', ''-DCMAKE_BUILD_TYPE=Release'',
        ''-DCMAKE_INSTALL_PREFIX=/repo/dependencies/simbody/install'',
        ''-DCMAKE_POLICY_VERSION_MINIMUM=3.5''])" by simp
  have c: "cwds (snd (snd (main ?h \<lparr>target = All, rebuild = False\<rparr> checkout))) =
     [Some [''repo'', ''dependencies'', ''osg'', ''build''],
      Some [''repo'', ''dependencies'', ''osg'', ''build''],
      Some [''repo'', ''dependencies'', ''osg'', ''build''],
      Some [''repo'', ''dependencies'', ''simbody'', ''build'']]"
    by (simp add: evals hosts worlds cwds_def)
  have f: "fst (snd (main ?h \<lparr>target = All, rebuild = False\<rparr> checkout))
     [''repo'', ''dependencies'', ''osg'', ''build''] = Some Dir"
    "fst (snd (main ?h \<lparr>target = All, rebuild = False\<rparr> checkout))
     [''repo'', ''dependencies'', ''opensim'', ''build''] = None"
    by (simp_all add: evals hosts worlds)
  show ?thesis
    apply (insert r0 r1 m c f)
    apply (intro conjI)
    apply assumption+
    done
qed

text \<open>
  C1, as the code has it. Target \<^verbatim>\<open>all\<close> runs \<^verbatim>\<open>build_all\<close>, which invokes the steps in the
  order osg, simbody, opensim, scone: each step starts on the file system its predecessor
  left, and only after the predecessor has returned normally; a step that raises ends
  the run with its exception, and the later steps are not invoked. So the working
  directories of the subprocesses started are, in this order, the build directory of osg,
  of simbody, of opensim and of scone, each at most three times.
\<close>

theorem build_all_runs_steps_in_order:
  "dispatch h \<lparr>target = All, rebuild = force\<rparr> s = build_all h force s \<and>
   (\<exists>r1 s1 e1. build_osg h force s = (r1, s1, e1) \<and>
      (case r1 of
         Inl e \<Rightarrow> build_all h force s = (Inl e, s1, e1)
       | Inr u \<Rightarrow>
          (\<exists>r2 s2 e2. build_simbody h force s1 = (r2, s2, e2) \<and>
             (case r2 of
                Inl e \<Rightarrow> build_all h force s = (Inl e, s2, e1 @ e2)
              | Inr u \<Rightarrow>
                 (\<exists>r3 s3 e3. build_opensim h force s2 = (r3, s3, e3) \<and>
                    (case r3 of
                       Inl e \<Rightarrow> build_all h force s = (Inl e, s3, e1 @ e2 @ e3)
                     | Inr u \<Rightarrow>
                        (\<exists>r4 s4 e4. build_scone h force s3 = (r4, s4, e4) \<and>
                           build_all h force s = (r4, s4, e1 @ e2 @ e3 @ e4)))))))) \<and>
   (\<exists>k1 k2 k3 k4. k1 \<le> 3 \<and> k2 \<le> 3 \<and> k3 \<le> 3 \<and> k4 \<le> 3 \<and>
      cwds (snd (snd (build_all h force s))) =
        replicate k1 (Some (build_dir h ''osg'')) @ replicate k2 (Some (build_dir h ''simbody'')) @
        replicate k3 (Some (build_dir h ''opensim'')) @ replicate k4 (Some (build_dir h ''scone'')))"
proof -
  obtain r1 s1 e1 where b1: "build_osg h force s = (r1, s1, e1)" by (cases "build_osg h force s")
  obtain r2 s2 e2 where b2: "build_simbody h force s1 = (r2, s2, e2)" by (cases "build_simbody h force s1")
  obtain r3 s3 e3 where b3: "build_opensim h force s2 = (r3, s3, e3)" by (cases "build_opensim h force s2")
  obtain r4 s4 e4 where b4: "build_scone h force s3 = (r4, s4, e4)" by (cases "build_scone h force s3")
  from step_cwds[OF steps_mem(1) b1] obtain k1 where k1: "k1 \<le> 3" "cwds e1 = replicate k1 (Some (build_dir h ''osg''))" by blast
  from step_cwds[OF steps_mem(2) b2] obtain k2 where k2: "k2 \<le> 3" "cwds e2 = replicate k2 (Some (build_dir h ''simbody''))" by blast
  from step_cwds[OF steps_mem(3) b3] obtain k3 where k3: "k3 \<le> 3" "cwds e3 = replicate k3 (Some (build_dir h ''opensim''))" by blast
  from step_cwds[OF steps_mem(4) b4] obtain k4 where k4: "k4 \<le> 3" "cwds e4 = replicate k4 (Some (build_dir h ''scone''))" by blast
  let ?chain = "\<exists>r1 s1 e1. build_osg h force s = (r1, s1, e1) \<and>
      (case r1 of
         Inl e \<Rightarrow> build_all h force s = (Inl e, s1, e1)
       | Inr u \<Rightarrow>
          (\<exists>r2 s2 e2. build_simbody h force s1 = (r2, s2, e2) \<and>
             (case r2 of
                Inl e \<Rightarrow> build_all h force s = (Inl e, s2, e1 @ e2)
              | Inr u \<Rightarrow>
                 (\<exists>r3 s3 e3. build_opensim h force s2 = (r3, s3, e3) \<and>
                    (case r3 of
                       Inl e \<Rightarrow> build_all h force s = (Inl e, s3, e1 @ e2 @ e3)
                     | Inr u \<Rightarrow>
                        (\<exists>r4 s4 e4. build_scone h force s3 = (r4, s4, e4) \<and>
                           build_all h force s = (r4, s4, e1 @ e2 @ e3 @ e4)))))))"
  let ?order = "\<exists>k1 k2 k3 k4. k1 \<le> 3 \<and> k2 \<le> 3 \<and> k3 \<le> 3 \<and> k4 \<le> 3 \<and>
      cwds (snd (snd (build_all h force s))) =
        replicate k1 (Some (build_dir h ''osg'')) @ replicate k2 (Some (build_dir h ''simbody'')) @
        replicate k3 (Some (build_dir h ''opensim'')) @ replicate k4 (Some (build_dir h ''scone''))"
  have d: "dispatch h \<lparr>target = All, rebuild = force\<rparr> s = build_all h force s"
    by (simp add: dispatch_def)
  have "?chain \<and> ?order"
  proof (cases r1)
    case (Inl e)
    with b1 have a: "build_all h force s = (Inl e, s1, e1)" by (simp add: build_all_def seq_def)
    have "?chain" using b1 Inl a by (intro exI[of _ r1] exI[of _ s1] exI[of _ e1]) simp
    moreover have "?order" using a k1
      by (intro exI[of _ k1] exI[of _ 0]) simp
    ultimately show ?thesis ..
  next
    case i1: (Inr u1)
    show ?thesis
    proof (cases r2)
      case (Inl e)
      with b1 b2 i1 have a: "build_all h force s = (Inl e, s2, e1 @ e2)"
        by (simp add: build_all_def seq_def)
      have "?chain" using b1 b2 i1 Inl a
        by (intro exI[of _ r1] exI[of _ s1] exI[of _ e1]) simp
      moreover have "?order" using a k1 k2
        by (intro exI[of _ k1] exI[of _ k2] exI[of _ 0]) (simp add: cwds_append)
      ultimately show ?thesis ..
    next
      case i2: (Inr u2)
      show ?thesis
      proof (cases r3)
        case (Inl e)
        with b1 b2 b3 i1 i2 have a: "build_all h force s = (Inl e, s3, e1 @ e2 @ e3)"
          by (simp add: build_all_def seq_def)
        have "?chain" using b1 b2 b3 i1 i2 Inl a
          by (intro exI[of _ r1] exI[of _ s1] exI[of _ e1]) simp
        moreover have "?order" using a k1 k2 k3
          by (intro exI[of _ k1] exI[of _ k2] exI[of _ k3] exI[of _ 0]) (simp add: cwds_append)
        ultimately show ?thesis ..
      next
        case i3: (Inr u3)
        with b1 b2 b3 b4 i1 i2 have a: "build_all h force s = (r4, s4, e1 @ e2 @ e3 @ e4)"
          by (simp add: build_all_def seq_def)
        have "?chain" using b1 b2 b3 b4 i1 i2 i3 a
          by (intro exI[of _ r1] exI[of _ s1] exI[of _ e1]) simp
        moreover have "?order" using a k1 k2 k3 k4
          by (intro exI[of _ k1] exI[of _ k2] exI[of _ k3] exI[of _ k4]) (simp add: cwds_append)
        ultimately show ?thesis ..
      qed
    qed
  qed
  with d show ?thesis by (rule conjI)
qed

theorem build_all_runs_steps_in_order_witness:
  "dispatch linux_host \<lparr>target = All, rebuild = True\<rparr> installed = build_all linux_host True installed \<and>
   fst (build_all linux_host True installed) = Inr () \<and>
   cwds (snd (snd (build_all linux_host True installed))) =
     replicate 3 (Some [''repo'', ''dependencies'', ''osg'', ''build'']) @
     replicate 3 (Some [''repo'', ''dependencies'', ''simbody'', ''build'']) @
     replicate 3 (Some [''repo'', ''dependencies'', ''opensim'', ''build'']) @
     replicate 3 (Some [''repo'', ''dependencies'', ''scone'', ''build''])"
proof -
  have "fst (build_all linux_host True installed) = Inr () \<and>
   cwds (snd (snd (build_all linux_host True installed))) =
     replicate 3 (Some [''repo'', ''dependencies'', ''osg'', ''build'']) @
     replicate 3 (Some [''repo'', ''dependencies'', ''simbody'', ''build'']) @
     replicate 3 (Some [''repo'', ''dependencies'', ''opensim'', ''build'']) @
     replicate 3 (Some [''repo'', ''dependencies'', ''scone'', ''build''])"
    by (simp add: evals hosts worlds cwds_def numeral_3_eq_3)
  with build_all_runs_steps_in_order[of linux_host True installed, THEN conjunct1]
  show ?thesis by (rule conjI)
qed

text \<open>
  The claim as stated fails where the configure command of osg exits with a status other
  than 0: of the four steps only that of osg is invoked.
\<close>

theorem first_step_failure_counterexample:
  "fst (main broken_host \<lparr>target = All, rebuild = True\<rparr> checkout) =
     Inl (CalledProcessError 2
       [''cmake'', ''/repo/submodules/OpenSceneGraph'', ''-DCMAKE_BUILD_TYPE=Release'',
        ''-DCMAKE_INSTALL_PREFIX=/repo/dependencies/osg/install'',
        ''-DCMAKE_POLICY_VERSION_MINIMUM=3.5'', ''-DOSG_USE_QT=ON'', ''-DDESIRED_QT_VERSION=5'']) \<and>
   cwds (snd (snd (main broken_host \<lparr>target = All, rebuild = True\<rparr> checkout))) =
     [Some [''repo'', ''dependencies'', ''osg'', ''build'']] \<and>
   snd (snd (build_all broken_host True prepared)) = snd (snd (build_osg broken_host True prepared))"
  by (simp add: evals hosts worlds cwds_def)

end
